theory Spec2Isabelle
  imports Main "HOL-Library.Word"
begin

section \<open>Bytes, Python strings and the exceptions of pac\_tool.py\<close>

text \<open>
  A Python \<open>bytes\<close> value is a list of 8-bit words. A Python \<open>str\<close> is a list of Unicode
  code points. Python integers are unbounded, so every integer attribute is an \<open>int\<close>; the
  range check of \<open>struct.pack\<close> is written out.
\<close>

type_synonym byte = "8 word"
type_synonym bytes = "byte list"
type_synonym pystr = "nat list"

text \<open>The exceptions that the modelled code raises or lets through.\<close>

datatype error =
    StructError
  | UnicodeEncodeError
  | UnicodeDecodeError
  | EOFError
  | ValueError
  | KeyError
  | TypeError
  | JSONDecodeError

text \<open>Sequencing of fallible steps: the first exception raised ends the computation.\<close>

definition ebind :: "error + 'a \<Rightarrow> ('a \<Rightarrow> error + 'b) \<Rightarrow> error + 'b" where
  "ebind m f = (case m of Inl e \<Rightarrow> Inl e | Inr x \<Rightarrow> f x)"

text \<open>Python slicing \<open>data[a:b]\<close> for \<open>0 \<le> a\<close>, \<open>0 \<le> b\<close>: out-of-range bounds are clipped.\<close>

definition slice :: "nat \<Rightarrow> nat \<Rightarrow> 'a list \<Rightarrow> 'a list" where
  "slice a b xs = take (b - a) (drop a xs)"

subsection \<open>struct.pack and struct.unpack, little-endian\<close>

fun le_bytes :: "nat \<Rightarrow> int \<Rightarrow> bytes" where
  "le_bytes 0 v = []"
| "le_bytes (Suc n) v = word_of_int (v mod 256) # le_bytes n (v div 256)"

fun le_int :: "bytes \<Rightarrow> int" where
  "le_int [] = 0"
| "le_int (b # bs) = uint b + 256 * le_int bs"

text \<open>\<open>struct.pack("<I", v)\<close>: raises \<open>struct.error\<close> unless \<open>0 \<le> v < 2^32\<close>.\<close>

definition pack_u32 :: "int \<Rightarrow> error + bytes" where
  "pack_u32 v = (if 0 \<le> v \<and> v < 2 ^ 32 then Inr (le_bytes 4 v) else Inl StructError)"

text \<open>\<open>struct.pack("<B", v)\<close>: raises \<open>struct.error\<close> unless \<open>0 \<le> v < 256\<close>.\<close>

definition pack_u8 :: "int \<Rightarrow> error + bytes" where
  "pack_u8 v = (if 0 \<le> v \<and> v < 256 then Inr (le_bytes 1 v) else Inl StructError)"

text \<open>\<open>struct.pack("<nI", v1, ..., vn)\<close>.\<close>

fun pack_u32s :: "int list \<Rightarrow> error + bytes" where
  "pack_u32s [] = Inr []"
| "pack_u32s (v # vs) =
     ebind (pack_u32 v) (\<lambda>b. ebind (pack_u32s vs) (\<lambda>bs. Inr (b @ bs)))"

text \<open>The 32-bit fields of a buffer whose length is a multiple of four.\<close>

fun u32s :: "bytes \<Rightarrow> int list" where
  "u32s (a # b # c # d # rest) = le_int [a, b, c, d] # u32s rest"
| "u32s _ = []"

text \<open>
  \<open>struct.unpack("<nI", buf)\<close>: raises \<open>struct.error\<close> unless the buffer has exactly
  \<open>4 * n\<close> bytes.
\<close>

definition unpack_u32s :: "nat \<Rightarrow> bytes \<Rightarrow> error + int list" where
  "unpack_u32s n buf = (if length buf = 4 * n then Inr (u32s buf) else Inl StructError)"

text \<open>\<open>struct.unpack("<I", buf)[0]\<close>.\<close>

definition unpack_u32 :: "bytes \<Rightarrow> error + int" where
  "unpack_u32 buf = (if length buf = 4 then Inr (le_int buf) else Inl StructError)"

subsection \<open>The library functions the code calls\<close>

text \<open>
  The SHIFT-JIS codec, zlib and the JSON reader and writer are library code, not code of
  this repository. They are parameters of the model:
  \<^item> \<open>sj_decode\<close> is \<open>bytes.decode("shift_jis")\<close>, \<open>None\<close> where it raises
    \<open>UnicodeDecodeError\<close>; \<open>sj_decode_replace\<close> is the same call with
    \<open>errors="replace"\<close>, which never raises;
  \<^item> \<open>sj_encode\<close> is \<open>str.encode("shift_jis")\<close>, \<open>None\<close> where it raises
    \<open>UnicodeEncodeError\<close>; \<open>sj_encode_replace\<close> is the call with \<open>errors="replace"\<close>;
  \<^item> \<open>zlib_compress\<close> is \<open>zlib.compress\<close>; \<open>zlib_decompress\<close> is \<open>zlib.decompress\<close>,
    \<open>None\<close> where it raises \<open>zlib.error\<close>.
\<close>

record codec =
  sj_decode :: "bytes \<Rightarrow> pystr option"
  sj_decode_replace :: "bytes \<Rightarrow> pystr"
  sj_encode :: "pystr \<Rightarrow> bytes option"
  sj_encode_replace :: "pystr \<Rightarrow> bytes"

record zlib =
  zlib_compress :: "bytes \<Rightarrow> bytes"
  zlib_decompress :: "bytes \<Rightarrow> bytes option"

section \<open>ResName\<close>

text \<open>
  \<open>ResName.from_bytes\<close>: the length prefix is unpacked from \<open>data[:4]\<close>, the text bytes
  are the slice \<open>data[4 : 4 + length]\<close> (shorter than \<open>length\<close> when the data ends early:
  slicing does not raise), decoded strictly and, on \<open>UnicodeDecodeError\<close>, with
  replacement. The result is the text alone.
\<close>

definition ResName_from_bytes :: "codec \<Rightarrow> bytes \<Rightarrow> error + pystr" where
  "ResName_from_bytes C data =
     ebind (unpack_u32 (take 4 data)) (\<lambda>len.
       let sj_bytes = slice 4 (4 + nat len) data in
       (case sj_decode C sj_bytes of
          Some v \<Rightarrow> Inr v
        | None \<Rightarrow> Inr (sj_decode_replace C sj_bytes)))"

text \<open>\<open>ResName.to_bytes\<close>: strict encoding, with replacement on \<open>UnicodeEncodeError\<close>.\<close>

definition ResName_to_bytes :: "codec \<Rightarrow> pystr \<Rightarrow> error + bytes" where
  "ResName_to_bytes C v =
     (let encoded = (case sj_encode C v of Some e \<Rightarrow> e | None \<Rightarrow> sj_encode_replace C v)
      in ebind (pack_u32 (int (length encoded))) (\<lambda>h. Inr (h @ encoded)))"

text \<open>
  The expression \<open>4 + len(name.value.encode("shift_jis"))\<close> by which \<open>TtpFrame.from_bytes\<close>
  and \<open>TtpFile.from_bytes\<close> advance their position past a name: the number of bytes a
  text field is taken to have consumed. The encoding is strict, so it raises
  \<open>UnicodeEncodeError\<close> on a text the codec cannot encode.
\<close>

definition consumed :: "codec \<Rightarrow> pystr \<Rightarrow> error + nat" where
  "consumed C v =
     (case sj_encode C v of None \<Rightarrow> Inl UnicodeEncodeError | Some e \<Rightarrow> Inr (4 + length e))"

section \<open>TtpFrame\<close>

record TtpFrame =
  sprite_name :: pystr
  se_name :: pystr
  textbox_name :: pystr
  delay_ms :: int
  x_offset_textbox :: int
  y_offset_textbox :: int
  x_offset :: int
  y_offset :: int

definition TtpFrame_from_bytes :: "codec \<Rightarrow> bytes \<Rightarrow> error + TtpFrame" where
  "TtpFrame_from_bytes C data =
     ebind (ResName_from_bytes C data) (\<lambda>sprite.
     ebind (consumed C sprite) (\<lambda>n1.
     ebind (ResName_from_bytes C (drop n1 data)) (\<lambda>se.
     ebind (consumed C se) (\<lambda>n2.
     ebind (ResName_from_bytes C (drop (n1 + n2) data)) (\<lambda>textbox.
     ebind (consumed C textbox) (\<lambda>n3.
     let pos = n1 + n2 + n3 in
     ebind (unpack_u32s 5 (slice pos (pos + 20) data)) (\<lambda>values.
       Inr \<lparr>sprite_name = sprite, se_name = se, textbox_name = textbox,
            delay_ms = values ! 0, x_offset_textbox = values ! 1,
            y_offset_textbox = values ! 2, x_offset = values ! 3,
            y_offset = values ! 4\<rparr>)))))))"

definition TtpFrame_to_bytes :: "codec \<Rightarrow> TtpFrame \<Rightarrow> error + bytes" where
  "TtpFrame_to_bytes C frame =
     ebind (ResName_to_bytes C (sprite_name frame)) (\<lambda>b1.
     ebind (ResName_to_bytes C (se_name frame)) (\<lambda>b2.
     ebind (ResName_to_bytes C (textbox_name frame)) (\<lambda>b3.
     ebind (pack_u32s [delay_ms frame, x_offset_textbox frame, y_offset_textbox frame,
                       x_offset frame, y_offset frame]) (\<lambda>b4.
       Inr (b1 @ b2 @ b3 @ b4)))))"

text \<open>
  The four position updates that \<open>TtpFile.from_bytes\<close> makes after reading a frame: the
  three names are encoded again, and 20 is added for the five integers.
\<close>

definition frame_consumed :: "codec \<Rightarrow> TtpFrame \<Rightarrow> error + nat" where
  "frame_consumed C frame =
     ebind (consumed C (sprite_name frame)) (\<lambda>n1.
     ebind (consumed C (se_name frame)) (\<lambda>n2.
     ebind (consumed C (textbox_name frame)) (\<lambda>n3.
       Inr (n1 + n2 + n3 + 20))))"

section \<open>TtpFile\<close>

record TtpFile =
  maybe_ttp_type :: int
  frame_count :: int
  window_width :: int
  window_height :: int
  frames :: "TtpFrame list"
  onetime_wakeup_dont_play_sound :: "int option"

text \<open>
  The loop \<open>for _ in range(ttp.frame_count)\<close> of \<open>TtpFile.from_bytes\<close>, with the position
  and the frames read so far.
\<close>

fun read_frames ::
  "codec \<Rightarrow> bytes \<Rightarrow> nat \<Rightarrow> nat \<Rightarrow> TtpFrame list \<Rightarrow> error + (TtpFrame list \<times> nat)" where
  "read_frames C data 0 pos acc = Inr (acc, pos)"
| "read_frames C data (Suc n) pos acc =
     ebind (TtpFrame_from_bytes C (drop pos data)) (\<lambda>frame.
     ebind (frame_consumed C frame) (\<lambda>k.
       read_frames C data n (pos + k) (acc @ [frame])))"

definition TtpFile_from_bytes :: "codec \<Rightarrow> bytes \<Rightarrow> error + TtpFile" where
  "TtpFile_from_bytes C data =
     ebind (unpack_u32s 4 (slice 0 16 data)) (\<lambda>header.
     ebind (read_frames C data (nat (header ! 1)) 16 []) (\<lambda>(fs, pos).
       Inr \<lparr>maybe_ttp_type = header ! 0, frame_count = header ! 1,
            window_width = header ! 2, window_height = header ! 3,
            frames = fs,
            onetime_wakeup_dont_play_sound =
              (if header ! 0 = 3 \<and> pos < length data
               then Some (uint (data ! pos)) else None)\<rparr>))"

text \<open>The loop \<open>for frame in self.frames: data += frame.to_bytes()\<close>.\<close>

fun frames_to_bytes :: "codec \<Rightarrow> TtpFrame list \<Rightarrow> error + bytes" where
  "frames_to_bytes C [] = Inr []"
| "frames_to_bytes C (f # fs) =
     ebind (TtpFrame_to_bytes C f) (\<lambda>b. ebind (frames_to_bytes C fs) (\<lambda>bs. Inr (b @ bs)))"

definition TtpFile_to_bytes :: "codec \<Rightarrow> TtpFile \<Rightarrow> error + bytes" where
  "TtpFile_to_bytes C ttp =
     ebind (pack_u32s [maybe_ttp_type ttp, frame_count ttp,
                       window_width ttp, window_height ttp]) (\<lambda>header.
     ebind (frames_to_bytes C (frames ttp)) (\<lambda>body.
       (case onetime_wakeup_dont_play_sound ttp of
          Some v \<Rightarrow>
            if maybe_ttp_type ttp = 3
            then ebind (pack_u8 v) (\<lambda>b. Inr (header @ body @ b))
            else Inr (header @ body)
        | None \<Rightarrow> Inr (header @ body))))"

subsection \<open>The editable dictionary of an animation\<close>

text \<open>
  The value that \<open>json.loads\<close> returns and \<open>json.dumps\<close> takes: a dictionary is an
  association list from keys to values. Numbers are integers here; floating-point
  numbers and booleans are not modelled.
\<close>

datatype jval =
    JNull
  | JInt int
  | JStr pystr
  | JArr "jval list"
  | JObj "(string \<times> jval) list"

record json =
  json_dumps :: "jval \<Rightarrow> bytes"
  json_loads :: "bytes \<Rightarrow> error + jval"

text \<open>
  \<open>data[key]\<close>: \<open>KeyError\<close> when the key is absent, \<open>TypeError\<close> when \<open>data\<close> is not a
  dictionary. The attributes of the model are typed, so a value of another JSON type is
  rejected here with \<open>TypeError\<close>; Python stores it and raises when \<open>to_bytes\<close> packs
  or encodes it, which \<open>convert_back\<close> does next.
\<close>

definition get_item :: "jval \<Rightarrow> string \<Rightarrow> error + jval" where
  "get_item d k =
     (case d of
        JObj kvs \<Rightarrow> (case map_of kvs k of None \<Rightarrow> Inl KeyError | Some v \<Rightarrow> Inr v)
      | _ \<Rightarrow> Inl TypeError)"

definition get_int :: "jval \<Rightarrow> string \<Rightarrow> error + int" where
  "get_int d k =
     ebind (get_item d k) (\<lambda>v. case v of JInt i \<Rightarrow> Inr i | _ \<Rightarrow> Inl TypeError)"

definition get_str :: "jval \<Rightarrow> string \<Rightarrow> error + pystr" where
  "get_str d k =
     ebind (get_item d k) (\<lambda>v. case v of JStr s \<Rightarrow> Inr s | _ \<Rightarrow> Inl TypeError)"

definition TtpFrame_to_dict :: "TtpFrame \<Rightarrow> jval" where
  "TtpFrame_to_dict frame =
     JObj [(''sprite_name'', JStr (sprite_name frame)),
           (''se_name'', JStr (se_name frame)),
           (''textbox_name'', JStr (textbox_name frame)),
           (''delay_ms'', JInt (delay_ms frame)),
           (''x_offset_textbox'', JInt (x_offset_textbox frame)),
           (''y_offset_textbox'', JInt (y_offset_textbox frame)),
           (''x_offset'', JInt (x_offset frame)),
           (''y_offset'', JInt (y_offset frame))]"

definition TtpFrame_from_dict :: "jval \<Rightarrow> error + TtpFrame" where
  "TtpFrame_from_dict d =
     ebind (get_str d ''sprite_name'') (\<lambda>sprite.
     ebind (get_str d ''se_name'') (\<lambda>se.
     ebind (get_str d ''textbox_name'') (\<lambda>textbox.
     ebind (get_int d ''delay_ms'') (\<lambda>delay.
     ebind (get_int d ''x_offset_textbox'') (\<lambda>xt.
     ebind (get_int d ''y_offset_textbox'') (\<lambda>yt.
     ebind (get_int d ''x_offset'') (\<lambda>x.
     ebind (get_int d ''y_offset'') (\<lambda>y.
       Inr \<lparr>sprite_name = sprite, se_name = se, textbox_name = textbox,
            delay_ms = delay, x_offset_textbox = xt, y_offset_textbox = yt,
            x_offset = x, y_offset = y\<rparr>))))))))"

definition TtpFile_to_dict :: "TtpFile \<Rightarrow> jval" where
  "TtpFile_to_dict ttp =
     JObj ([(''maybe_ttp_type'', JInt (maybe_ttp_type ttp)),
            (''frame_count'', JInt (frame_count ttp)),
            (''window_width'', JInt (window_width ttp)),
            (''window_height'', JInt (window_height ttp)),
            (''frames'', JArr (map TtpFrame_to_dict (frames ttp)))] @
           (case onetime_wakeup_dont_play_sound ttp of
              None \<Rightarrow> []
            | Some v \<Rightarrow> [(''onetime_wakeup_dont_play_sound'', JInt v)]))"

text \<open>The comprehension \<open>[TtpFrame.from_dict(frame) for frame in data["frames"]]\<close>.\<close>

fun frames_from_dict :: "jval list \<Rightarrow> error + TtpFrame list" where
  "frames_from_dict [] = Inr []"
| "frames_from_dict (d # ds) =
     ebind (TtpFrame_from_dict d) (\<lambda>f. ebind (frames_from_dict ds) (\<lambda>fs. Inr (f # fs)))"

text \<open>\<open>data.get("onetime_wakeup_dont_play_sound")\<close>: \<open>None\<close> when the key is absent.\<close>

definition get_flag :: "jval \<Rightarrow> error + int option" where
  "get_flag d =
     (case d of
        JObj kvs \<Rightarrow>
          (case map_of kvs ''onetime_wakeup_dont_play_sound'' of
             None \<Rightarrow> Inr None
           | Some JNull \<Rightarrow> Inr None
           | Some (JInt v) \<Rightarrow> Inr (Some v)
           | Some _ \<Rightarrow> Inl TypeError)
      | _ \<Rightarrow> Inl TypeError)"

definition TtpFile_from_dict :: "jval \<Rightarrow> error + TtpFile" where
  "TtpFile_from_dict d =
     ebind (get_int d ''maybe_ttp_type'') (\<lambda>ty.
     ebind (get_int d ''frame_count'') (\<lambda>fc.
     ebind (get_int d ''window_width'') (\<lambda>w.
     ebind (get_int d ''window_height'') (\<lambda>h.
     ebind (get_item d ''frames'') (\<lambda>fv.
     ebind (case fv of JArr ds \<Rightarrow> frames_from_dict ds | _ \<Rightarrow> Inl TypeError) (\<lambda>fs.
     ebind (get_flag d) (\<lambda>flag.
       Inr \<lparr>maybe_ttp_type = ty, frame_count = fc, window_width = w,
            window_height = h, frames = fs,
            onetime_wakeup_dont_play_sound = flag\<rparr>)))))))"

section \<open>PacFile\<close>

datatype file_type = Bmz | Ttp | Other

record PacFile =
  file_type :: file_type
  data :: bytes
  uncompressed_size :: int

text \<open>The marker \<open>b"ZLC3"\<close>.\<close>

definition ZLC3 :: bytes where
  "ZLC3 = [0x5A, 0x4C, 0x43, 0x33]"

text \<open>
  \<open>PacFile.from_bytes(data, size)\<close>. The condition of the \<open>elif\<close> ends in \<open>or True\<close>, so
  the final \<open>else\<close> is never taken; the bare \<open>except:\<close> turns every exception of the
  animation parser into the type \<open>"other"\<close>. The unpacking of \<open>data[4:8]\<close> is outside the
  \<open>try\<close>.
\<close>

definition PacFile_from_bytes :: "codec \<Rightarrow> bytes \<Rightarrow> nat \<Rightarrow> error + PacFile" where
  "PacFile_from_bytes C dat sz =
     (if take 4 dat = ZLC3 then
        ebind (unpack_u32 (slice 4 8 dat)) (\<lambda>u.
          Inr \<lparr>file_type = Bmz, data = slice 8 sz dat, uncompressed_size = u\<rparr>)
      else
        (case TtpFile_from_bytes C (take sz dat) of
           Inr ttp \<Rightarrow> Inr \<lparr>file_type = Ttp, data = take sz dat, uncompressed_size = 0\<rparr>
         | Inl e \<Rightarrow> Inr \<lparr>file_type = Other, data = take sz dat, uncompressed_size = 0\<rparr>))"

definition PacFile_converted_data ::
  "codec \<Rightarrow> zlib \<Rightarrow> json \<Rightarrow> PacFile \<Rightarrow> error + bytes" where
  "PacFile_converted_data C Z J pf =
     (case file_type pf of
        Bmz \<Rightarrow> (case zlib_decompress Z (data pf) of
                  Some b \<Rightarrow> Inr b
                | None \<Rightarrow> Inl ValueError)
      | Ttp \<Rightarrow> ebind (TtpFile_from_bytes C (data pf)) (\<lambda>ttp.
                 Inr (json_dumps J (TtpFile_to_dict ttp)))
      | Other \<Rightarrow> Inr (data pf))"

definition PacFile_to_bytes :: "PacFile \<Rightarrow> error + bytes" where
  "PacFile_to_bytes pf =
     (case file_type pf of
        Bmz \<Rightarrow> ebind (pack_u32 (uncompressed_size pf)) (\<lambda>h. Inr (ZLC3 @ h @ data pf))
      | _ \<Rightarrow> Inr (data pf))"

definition PacFile_convert_back ::
  "codec \<Rightarrow> zlib \<Rightarrow> json \<Rightarrow> bytes \<Rightarrow> string \<Rightarrow> error + PacFile" where
  "PacFile_convert_back C Z J dat conv_extension =
     (if conv_extension = ''bmp'' then
        Inr \<lparr>file_type = Bmz, data = zlib_compress Z dat,
             uncompressed_size = int (length dat)\<rparr>
      else if conv_extension = ''json'' then
        ebind (json_loads J dat) (\<lambda>ttp_dict.
        ebind (TtpFile_from_dict ttp_dict) (\<lambda>ttp.
        ebind (TtpFile_to_bytes C ttp) (\<lambda>b.
          Inr \<lparr>file_type = Ttp, data = b, uncompressed_size = 0\<rparr>)))
      else
        Inr \<lparr>file_type = Other, data = dat, uncompressed_size = 0\<rparr>)"

section \<open>PacEntry\<close>

definition ENTRY_NAME_SIZE :: nat where
  "ENTRY_NAME_SIZE = 56"

definition ENTRY_HEADER_SIZE :: nat where
  "ENTRY_HEADER_SIZE = 8 + ENTRY_NAME_SIZE"

record PacEntry =
  offset :: int
  entry_size :: int
  name :: pystr
  file_data :: PacFile

text \<open>
  The binary file object: its contents and its position. \<open>f.read(n)\<close> returns the bytes
  that are there, fewer than \<open>n\<close> at the end of the file, and advances by what it
  returned; \<open>f.seek\<close> sets the position and \<open>f.tell\<close> reads it.
\<close>

record file_handle =
  content :: bytes
  position :: nat

definition f_read :: "nat \<Rightarrow> file_handle \<Rightarrow> bytes \<times> file_handle" where
  "f_read n f =
     (let got = slice (position f) (position f + n) (content f)
      in (got, f\<lparr>position := position f + length got\<rparr>))"

definition f_seek :: "nat \<Rightarrow> file_handle \<Rightarrow> file_handle" where
  "f_seek p f = f\<lparr>position := p\<rparr>"

text \<open>
  \<open>PacEntry.from_file\<close>. The name is cut at its first zero byte
  (\<open>name_data[:name_data.find(b"\x00")]\<close> when there is one), then decoded strictly and,
  on \<open>UnicodeDecodeError\<close>, with replacement.
\<close>

definition PacEntry_from_file ::
  "codec \<Rightarrow> file_handle \<Rightarrow> error + (PacEntry \<times> file_handle)" where
  "PacEntry_from_file C f =
     (let (offset_size_data, f1) = f_read 8 f in
      if length offset_size_data < 8 then Inl EOFError
      else
        ebind (unpack_u32s 2 offset_size_data) (\<lambda>vs.
          let (name_data, f2) = f_read ENTRY_NAME_SIZE f1;
              name_cut = takeWhile (\<lambda>b. b \<noteq> 0) name_data;
              nm = (case sj_decode C name_cut of
                      Some v \<Rightarrow> v
                    | None \<Rightarrow> sj_decode_replace C name_cut);
              current_pos = position f2;
              (file_bytes, f3) = f_read (nat (vs ! 1)) (f_seek (nat (vs ! 0)) f2)
          in ebind (PacFile_from_bytes C file_bytes (nat (vs ! 1))) (\<lambda>pf.
               Inr (\<lparr>offset = vs ! 0, entry_size = vs ! 1, name = nm, file_data = pf\<rparr>,
                    f_seek current_pos f3))))"

definition PacEntry_to_bytes :: "codec \<Rightarrow> PacEntry \<Rightarrow> error + bytes" where
  "PacEntry_to_bytes C entry =
     (let name_encoded = take (ENTRY_NAME_SIZE - 1) (sj_encode_replace C (name entry));
          name_padded = name_encoded @ replicate (ENTRY_NAME_SIZE - length name_encoded) 0
      in ebind (pack_u32s [offset entry, entry_size entry]) (\<lambda>h. Inr (h @ name_padded)))"

section \<open>PacArchive\<close>

text \<open>The loop \<open>for _ in range(archive.entries_count)\<close> of \<open>PacArchive.from_file\<close>.\<close>

fun read_entries ::
  "codec \<Rightarrow> nat \<Rightarrow> file_handle \<Rightarrow> PacEntry list \<Rightarrow> error + PacEntry list" where
  "read_entries C 0 f acc = Inr acc"
| "read_entries C (Suc n) f acc =
     ebind (PacEntry_from_file C f) (\<lambda>(entry, f'). read_entries C n f' (acc @ [entry]))"

text \<open>\<open>PacArchive.from_file\<close>, on the contents of the file that it opens.\<close>

definition PacArchive_from_file :: "codec \<Rightarrow> bytes \<Rightarrow> error + PacEntry list" where
  "PacArchive_from_file C file_content =
     (let (entries_count_data, f) = f_read 4 \<lparr>content = file_content, position = 0\<rparr> in
      if length entries_count_data < 4 then Inl ValueError
      else ebind (unpack_u32 entries_count_data) (\<lambda>n. read_entries C (nat n) f []))"

section \<open>PacArchiveBuilder\<close>

text \<open>
  \<open>add_entry\<close> on the builder's entry list. The length test encodes the name strictly,
  so a name the codec cannot encode raises \<open>UnicodeEncodeError\<close>.
\<close>

definition add_entry ::
  "codec \<Rightarrow> PacEntry list \<Rightarrow> PacFile \<Rightarrow> pystr \<Rightarrow> error + PacEntry list" where
  "add_entry C entries fd nm =
     (case sj_encode C nm of
        None \<Rightarrow> Inl UnicodeEncodeError
      | Some e \<Rightarrow>
          if length e \<ge> ENTRY_NAME_SIZE then Inl ValueError
          else Inr (entries @ [\<lparr>offset = 0, entry_size = 0, name = nm, file_data = fd\<rparr>]))"

text \<open>
  The first pass of \<open>pack\<close>: each entry gets the current offset and the length of its
  packed file, and its header is encoded; the result is the updated entries and their
  headers.
\<close>

fun first_pass ::
  "codec \<Rightarrow> PacEntry list \<Rightarrow> int \<Rightarrow> error + (PacEntry list \<times> bytes list)" where
  "first_pass C [] current_offset = Inr ([], [])"
| "first_pass C (entry # rest) current_offset =
     ebind (PacFile_to_bytes (file_data entry)) (\<lambda>file_bytes.
       let entry' = entry\<lparr>offset := current_offset,
                           entry_size := int (length file_bytes)\<rparr>
       in ebind (PacEntry_to_bytes C entry') (\<lambda>header.
          ebind (first_pass C rest (current_offset + entry_size entry')) (\<lambda>(es, hs).
            Inr (entry' # es, header # hs))))"

text \<open>The second pass: the packed files, in order.\<close>

fun second_pass :: "PacEntry list \<Rightarrow> error + bytes" where
  "second_pass [] = Inr []"
| "second_pass (entry # rest) =
     ebind (PacFile_to_bytes (file_data entry)) (\<lambda>file_bytes.
     ebind (second_pass rest) (\<lambda>bs. Inr (file_bytes @ bs)))"

text \<open>
  \<open>pack\<close>: the entries as the first pass leaves them, and the bytes written to the
  output file. An exception ends the packing; the partly written file is not modelled.
\<close>

definition pack :: "codec \<Rightarrow> PacEntry list \<Rightarrow> error + (PacEntry list \<times> bytes)" where
  "pack C entries =
     ebind (pack_u32 (int (length entries))) (\<lambda>count.
     ebind (first_pass C entries (int (4 + ENTRY_HEADER_SIZE * length entries))) (\<lambda>(es, headers).
     ebind (second_pass es) (\<lambda>payloads.
       Inr (es, count @ concat headers @ payloads))))"

section \<open>A small codec and compressor to run the code on\<close>

text \<open>
  The 7-bit part of the codec, on which SHIFT-JIS is the identity: a byte below
  \<open>0x80\<close> is the code point of the same number. Every other byte is taken as invalid and
  every other code point as not encodable. Decoding with replacement gives \<open>U+FFFD\<close>
  for an invalid byte, encoding with replacement gives \<open>?\<close>.
\<close>

definition ascii_codec :: codec where
  "ascii_codec =
     \<lparr>sj_decode = (\<lambda>bs. if list_all (\<lambda>b. b < 0x80) bs then Some (map unat bs) else None),
      sj_decode_replace = map (\<lambda>b. if b < 0x80 then unat b else 0xFFFD),
      sj_encode = (\<lambda>s. if list_all (\<lambda>c. c < 0x80) s then Some (map of_nat s) else None),
      sj_encode_replace = map (\<lambda>c. if c < 0x80 then of_nat c else 0x3F)\<rparr>"

text \<open>
  A compressor that stores: one zero byte, then the input. Decompression accepts exactly
  such streams.
\<close>

definition stored_zlib :: zlib where
  "stored_zlib =
     \<lparr>zlib_compress = (\<lambda>b. 0 # b),
      zlib_decompress = (\<lambda>c. case c of [] \<Rightarrow> None
                                | x # b \<Rightarrow> if x = 0 then Some b else None)\<rparr>"

text \<open>A JSON library that reads nothing and writes nothing, for the paths that do not use it.\<close>

definition no_json :: json where
  "no_json = \<lparr>json_dumps = (\<lambda>v. []), json_loads = (\<lambda>b. Inl JSONDecodeError)\<rparr>"

section \<open>Observations and inputs of the statements\<close>

text \<open>The \<open>i\<close>-th 32-bit little-endian field of a byte string.\<close>

definition header_field :: "nat \<Rightarrow> bytes \<Rightarrow> int" where
  "header_field i bs = le_int (slice (4 * i) (4 * i + 4) bs)"

text \<open>
  An editable animation whose \<open>frame_count\<close> is 5 and whose frame list is empty, and
  the \<open>TtpFile\<close> that \<open>from_dict\<close> builds from it.
\<close>

definition stale_dict :: jval where
  "stale_dict =
     JObj [(''maybe_ttp_type'', JInt 0), (''frame_count'', JInt 5),
           (''window_width'', JInt 0), (''window_height'', JInt 0),
           (''frames'', JArr [])]"

definition stale_ttp :: TtpFile where
  "stale_ttp =
     \<lparr>maybe_ttp_type = 0, frame_count = 5, window_width = 0, window_height = 0,
      frames = [], onetime_wakeup_dont_play_sound = None\<rparr>"

text \<open>An entry whose name encodes to 60 bytes, with an offset and a size.\<close>

definition long_entry :: PacEntry where
  "long_entry =
     \<lparr>offset = 68, entry_size = 3, name = replicate 60 0x61,
      file_data = \<lparr>file_type = Other, data = [1, 2, 3], uncompressed_size = 0\<rparr>\<rparr>"

text \<open>Names whose encodings have 55 and 56 bytes, and a file to add under them.\<close>

definition name55 :: pystr where
  "name55 = replicate 55 0x61"

definition name56 :: pystr where
  "name56 = replicate 56 0x61"

definition small_file :: PacFile where
  "small_file = \<lparr>file_type = Other, data = [1, 2, 3], uncompressed_size = 0\<rparr>"

text \<open>
  The packed bytes of an entry's file and the header of an entry, where \<open>to_bytes\<close>
  returns them.
\<close>

definition packed_payload :: "PacEntry \<Rightarrow> bytes" where
  "packed_payload entry =
     (case PacFile_to_bytes (file_data entry) of Inr b \<Rightarrow> b | Inl e \<Rightarrow> [])"

definition entry_header :: "codec \<Rightarrow> PacEntry \<Rightarrow> bytes" where
  "entry_header C entry = (case PacEntry_to_bytes C entry of Inr h \<Rightarrow> h | Inl e \<Rightarrow> [])"

text \<open>Two entries to pack: a compressed bitmap of 2 stored bytes and an opaque file.\<close>

definition two_entries :: "PacEntry list" where
  "two_entries =
     [\<lparr>offset = 0, entry_size = 0, name = [0x61],
       file_data = \<lparr>file_type = Bmz, data = [7, 8], uncompressed_size = 5\<rparr>\<rparr>,
      \<lparr>offset = 0, entry_size = 0, name = [0x62],
       file_data = \<lparr>file_type = Other, data = [1, 2, 3], uncompressed_size = 0\<rparr>\<rparr>]"

definition two_packed :: "PacEntry list" where
  "two_packed =
     [\<lparr>offset = 132, entry_size = 10, name = [0x61],
       file_data = \<lparr>file_type = Bmz, data = [7, 8], uncompressed_size = 5\<rparr>\<rparr>,
      \<lparr>offset = 142, entry_size = 3, name = [0x62],
       file_data = \<lparr>file_type = Other, data = [1, 2, 3], uncompressed_size = 0\<rparr>\<rparr>]"

definition two_archive :: bytes where
  "two_archive =
     [2, 0, 0, 0] @
     [132, 0, 0, 0, 10, 0, 0, 0, 0x61] @ replicate 55 0 @
     [142, 0, 0, 0, 3, 0, 0, 0, 0x62] @ replicate 55 0 @
     [0x5A, 0x4C, 0x43, 0x33, 5, 0, 0, 0, 7, 8] @
     [1, 2, 3]"

text \<open>A compressed bitmap whose stored bytes inflate to \<open>[1, 2, 3]\<close>.\<close>

definition stored_bitmap :: PacFile where
  "stored_bitmap = \<lparr>file_type = Bmz, data = [0, 1, 2, 3], uncompressed_size = 3\<rparr>"

text \<open>
  An archive file of 12 bytes: the count 1, then only the offset and the size of the one
  entry, both 0, and no name field.
\<close>

definition short_archive :: bytes where
  "short_archive = [1, 0, 0, 0,  0, 0, 0, 0,  0, 0, 0, 0]"

definition nameless_entry :: PacEntry where
  "nameless_entry =
     \<lparr>offset = 0, entry_size = 0, name = [],
      file_data = \<lparr>file_type = Other, data = [], uncompressed_size = 0\<rparr>\<rparr>"

text \<open>A payload that is a compressed bitmap of four stored bytes.\<close>

definition bitmap_bytes :: bytes where
  "bitmap_bytes = [0x5A, 0x4C, 0x43, 0x33, 3, 0, 0, 0, 0, 1, 2, 3]"





text \<open>
  What the codec of Python does, as far as the statements need it: a byte string that
  decodes strictly encodes again to as many bytes, and a text decoded with replacement
  from a byte string that does not decode strictly holds \<open>U+FFFD\<close>, which does not
  encode strictly.
\<close>

definition length_preserving :: "codec \<Rightarrow> bool" where
  "length_preserving C =
     (\<forall>bs v. sj_decode C bs = Some v \<longrightarrow> (\<exists>e. sj_encode C v = Some e \<and> length e = length bs))"

definition replacement_unencodable :: "codec \<Rightarrow> bool" where
  "replacement_unencodable C =
     (\<forall>bs. sj_decode C bs = None \<longrightarrow> sj_encode C (sj_decode_replace C bs) = None)"

text \<open>
  The layout of the binary format as the specification describes it, apart from any
  decoding of text. A text field is a 32-bit length \<open>L\<close> and \<open>L\<close> bytes, and takes
  \<open>4 + L\<close> bytes; a frame is three text fields and 20 bytes; a document is 16 bytes
  and as many frames as its second header field declares. Each function gives the
  bytes of the text fields and the number of bytes taken, and \<open>None\<close> when fewer bytes
  remain than a field declares.
\<close>

definition declared_length :: "bytes \<Rightarrow> nat" where
  "declared_length d = nat (le_int (take 4 d))"

definition name_bytes :: "bytes \<Rightarrow> bytes" where
  "name_bytes d = slice 4 (4 + declared_length d) d"

definition text_field :: "bytes \<Rightarrow> (bytes \<times> nat) option" where
  "text_field d =
     (if length d < 4 \<or> length d < 4 + declared_length d then None
      else Some (name_bytes d, 4 + declared_length d))"

definition frame_fields :: "bytes \<Rightarrow> (bytes list \<times> nat) option" where
  "frame_fields d =
     (case text_field d of
        None \<Rightarrow> None
      | Some (t1, n1) \<Rightarrow>
          (case text_field (drop n1 d) of
             None \<Rightarrow> None
           | Some (t2, n2) \<Rightarrow>
               (case text_field (drop (n1 + n2) d) of
                  None \<Rightarrow> None
                | Some (t3, n3) \<Rightarrow>
                    if length d < n1 + n2 + n3 + 20 then None
                    else Some ([t1, t2, t3], n1 + n2 + n3 + 20))))"

fun frames_fields :: "nat \<Rightarrow> bytes \<Rightarrow> (bytes list \<times> nat) option" where
  "frames_fields 0 d = Some ([], 0)"
| "frames_fields (Suc n) d =
     (case frame_fields d of
        None \<Rightarrow> None
      | Some (ts, k) \<Rightarrow>
          (case frames_fields n (drop k d) of
             None \<Rightarrow> None
           | Some (ts', k') \<Rightarrow> Some (ts @ ts', k + k')))"

definition document_fields :: "bytes \<Rightarrow> (bytes list \<times> nat) option" where
  "document_fields d =
     (if length d < 16 then None
      else (case frames_fields (nat (header_field 1 d)) (drop 16 d) of
              None \<Rightarrow> None
            | Some (ts, k) \<Rightarrow> Some (ts, 16 + k)))"

text \<open>The text fields that decode strictly.\<close>

definition decodable :: "codec \<Rightarrow> bytes \<Rightarrow> bool" where
  "decodable C t = (sj_decode C t \<noteq> None)"

text \<open>The bytes that \<open>to_bytes\<close> writes for the animation above.\<close>

definition sample_bytes :: bytes where
  "sample_bytes =
     [3, 0, 0, 0, 2, 0, 0, 0, 128, 2, 0, 0, 224, 1, 0, 0] @
     [2, 0, 0, 0, 0x61, 0x62] @ [0, 0, 0, 0] @ [1, 0, 0, 0, 0x63] @
     [100, 0, 0, 0, 1, 0, 0, 0, 2, 0, 0, 0, 3, 0, 0, 0, 255, 255, 255, 255] @
     [1, 0, 0, 0, 0x64] @ [1, 0, 0, 0, 0x65] @ [0, 0, 0, 0] @
     replicate 20 0 @
     [1]"


text \<open>A header that declares one frame, and no byte after it.\<close>

definition lacking_bytes :: bytes where
  "lacking_bytes = [0, 0, 0, 0, 1, 0, 0, 0, 0, 0, 0, 0, 0, 0, 0, 0]"

text \<open>
  A complete frame of 33 bytes whose first name is the one byte \<open>0xFF\<close>, which is not
  valid in the codec; the other names are empty.
\<close>

definition bad_frame_bytes :: bytes where
  "bad_frame_bytes = [1, 0, 0, 0, 0xFF] @ [0, 0, 0, 0] @ [0, 0, 0, 0] @ replicate 20 0"

text \<open>
  A frame that ends inside its first name: the name declares 2 bytes, and the one byte
  that is there, \<open>0x81\<close>, is the first half of a two-byte character.
\<close>

definition cut_frame_bytes :: bytes where
  "cut_frame_bytes = [2, 0, 0, 0, 0x81]"

text \<open>The name \<open>U+00E9\<close>, and the name of 60 such characters.\<close>

definition accent_name :: pystr where
  "accent_name = [0xE9]"

definition long_accent_name :: pystr where
  "long_accent_name = replicate 60 0xE9"

section \<open>Properties of the codecs\<close>

lemma ebind_Inr_iff: "ebind m f = Inr y \<longleftrightarrow> (\<exists>x. m = Inr x \<and> f x = Inr y)"
  by (cases m) (simp_all add: ebind_def)

lemma ebind_Inr [simp]: "ebind (Inr x) f = f x"
  by (simp add: ebind_def)

lemma ebind_Inl [simp]: "ebind (Inl e) f = Inl e"
  by (simp add: ebind_def)

lemma length_le_bytes [simp]: "length (le_bytes n v) = n"
  by (induction n arbitrary: v) auto

lemma le_int_le_bytes: "0 \<le> v \<Longrightarrow> v < 256 ^ n \<Longrightarrow> le_int (le_bytes n v) = v"
proof (induction n arbitrary: v)
  case 0
  then show ?case by simp
next
  case (Suc n)
  have d: "0 \<le> v div 256" "v div 256 < 256 ^ n"
    using Suc.prems by (auto simp: div_less_iff_less_mult pos_imp_zdiv_nonneg_iff)
  have "uint (word_of_int (v mod 256) :: byte) = v mod 256"
    by (simp add: uint_word_of_int)
  then show ?case using Suc.IH [OF d] by simp
qed

lemma pack_u32_Inr_iff:
  "pack_u32 v = Inr b \<longleftrightarrow> 0 \<le> v \<and> v < 2 ^ 32 \<and> b = le_bytes 4 v"
  by (auto simp: pack_u32_def)

lemma le_int_pack_u32: "pack_u32 v = Inr b \<Longrightarrow> le_int b = v"
  using le_int_le_bytes [of v 4] by (auto simp: pack_u32_Inr_iff)

lemma length_pack_u32: "pack_u32 v = Inr b \<Longrightarrow> length b = 4"
  by (auto simp: pack_u32_Inr_iff)

lemma pack_u32s_4:
  assumes "pack_u32s [a, b, c, d] = Inr h"
  shows "\<exists>ba bb bc bd. h = ba @ bb @ bc @ bd \<and> pack_u32 a = Inr ba \<and> pack_u32 b = Inr bb
           \<and> pack_u32 c = Inr bc \<and> pack_u32 d = Inr bd"
  using assms by (auto simp: ebind_Inr_iff)

lemma slice_mid:
  "length xs = a \<Longrightarrow> length ys = n \<Longrightarrow> slice a (a + n) (xs @ ys @ zs) = ys"
  by (simp add: slice_def)

lemma TtpFile_to_bytes_header:
  assumes "TtpFile_to_bytes C ttp = Inr bs"
  shows "\<exists>h rest. bs = h @ rest \<and>
           pack_u32s [maybe_ttp_type ttp, frame_count ttp,
                      window_width ttp, window_height ttp] = Inr h"
  using assms
  by (auto simp: TtpFile_to_bytes_def ebind_Inr_iff split: option.splits if_splits)

lemma TtpFile_from_dict_frame_count:
  "TtpFile_from_dict j = Inr ttp \<Longrightarrow> get_int j ''frame_count'' = Inr (frame_count ttp)"
  by (auto simp: TtpFile_from_dict_def ebind_Inr_iff)

subsection \<open>C1: the frame count that encode writes\<close>

text \<open>
  C1, as amended. \<open>TtpFile.to_bytes\<close> writes the stored \<open>frame_count\<close> attribute as the
  second field of the header, whatever the length of the frame list: the field equals
  the length of the list exactly when the stored count does. \<open>TtpFile.from_dict\<close> copies
  the count from the dictionary, so packing an editable animation writes the count the
  document declares.
\<close>

theorem TtpFile_to_bytes_frame_count:
  assumes "TtpFile_to_bytes C ttp = Inr bs"
  shows "header_field 1 bs = frame_count ttp \<and>
         (header_field 1 bs = int (length (frames ttp))
            \<longleftrightarrow> frame_count ttp = int (length (frames ttp))) \<and>
         (\<forall>j. TtpFile_from_dict j = Inr ttp
            \<longrightarrow> get_int j ''frame_count'' = Inr (header_field 1 bs))"
proof -
  obtain h rest where bs: "bs = h @ rest"
    and h: "pack_u32s [maybe_ttp_type ttp, frame_count ttp,
                       window_width ttp, window_height ttp] = Inr h"
    using TtpFile_to_bytes_header [OF assms] by blast
  obtain ba bb bc bd where hh: "h = ba @ bb @ bc @ bd"
    and pa: "pack_u32 (maybe_ttp_type ttp) = Inr ba"
    and pb: "pack_u32 (frame_count ttp) = Inr bb"
    using pack_u32s_4 [OF h] by blast
  have "slice 4 (4 + 4) (ba @ bb @ (bc @ bd @ rest)) = bb"
    by (rule slice_mid) (simp_all add: length_pack_u32 [OF pa] length_pack_u32 [OF pb])
  then have "header_field 1 bs = le_int bb"
    by (simp add: header_field_def bs hh)
  then have eq: "header_field 1 bs = frame_count ttp"
    by (simp add: le_int_pack_u32 [OF pb])
  show ?thesis
    using eq TtpFile_from_dict_frame_count by auto
qed

lemma stale_from_dict: "TtpFile_from_dict stale_dict = Inr stale_ttp"
  by (simp add: TtpFile_from_dict_def stale_dict_def stale_ttp_def get_int_def
      get_item_def get_flag_def)

lemma stale_to_bytes:
  "TtpFile_to_bytes ascii_codec stale_ttp = Inr [0, 0, 0, 0, 5, 0, 0, 0, 0, 0, 0, 0, 0, 0, 0, 0]"
  by (simp add: TtpFile_to_bytes_def stale_ttp_def pack_u32_def numeral_eq_Suc)

theorem TtpFile_to_bytes_frame_count_witness:
  "TtpFile_to_bytes ascii_codec stale_ttp = Inr [0, 0, 0, 0, 5, 0, 0, 0, 0, 0, 0, 0, 0, 0, 0, 0] \<and>
   header_field 1 [0, 0, 0, 0, 5, 0, 0, 0, 0, 0, 0, 0, 0, 0, 0, 0] = 5 \<and>
   get_int stale_dict ''frame_count'' = Inr 5"
  using TtpFile_to_bytes_frame_count [OF stale_to_bytes] stale_from_dict stale_to_bytes
  by (simp add: stale_ttp_def)

text \<open>
  C1 as stated fails: the editable animation that declares 5 frames and lists none is
  packed with 5, not 0, in the frame-count field.
\<close>

theorem stale_frame_count_counterexample:
  "TtpFile_from_dict stale_dict = Inr stale_ttp \<and>
   TtpFile_to_bytes ascii_codec stale_ttp = Inr [0, 0, 0, 0, 5, 0, 0, 0, 0, 0, 0, 0, 0, 0, 0, 0] \<and>
   header_field 1 [0, 0, 0, 0, 5, 0, 0, 0, 0, 0, 0, 0, 0, 0, 0, 0] \<noteq> int (length (frames stale_ttp))"
proof -
  have "header_field 1 [0, 0, 0, 0, 5, 0, 0, 0, 0, 0, 0, 0, 0, 0, 0, 0] = 5"
    by (simp add: header_field_def slice_def)
  then show ?thesis
    using stale_from_dict stale_to_bytes by (simp add: stale_ttp_def)
qed

subsection \<open>C10: an entry header is 64 bytes\<close>

lemma pack_u32s_2:
  "pack_u32s [a, b] = Inr h \<longleftrightarrow>
     (0 \<le> a \<and> a < 2 ^ 32 \<and> 0 \<le> b \<and> b < 2 ^ 32 \<and> h = le_bytes 4 a @ le_bytes 4 b)"
  by (auto simp: ebind_Inr_iff pack_u32_Inr_iff)

text \<open>
  C10. For every entry whose offset and size are unsigned 32-bit values, whatever its
  name, \<open>PacEntry.to_bytes\<close> returns 64 bytes: the offset, the size, and a name
  field of exactly 56 bytes, which is the encoded name cut to 55 bytes and filled up
  with zero bytes.
\<close>

theorem PacEntry_to_bytes_64:
  assumes "0 \<le> offset entry" "offset entry < 2 ^ 32"
    and "0 \<le> entry_size entry" "entry_size entry < 2 ^ 32"
  shows "\<exists>field. PacEntry_to_bytes C entry
           = Inr (le_bytes 4 (offset entry) @ le_bytes 4 (entry_size entry) @ field) \<and>
         length (le_bytes 4 (offset entry) @ le_bytes 4 (entry_size entry) @ field) = 64 \<and>
         length field = 56 \<and>
         field = take 55 (sj_encode_replace C (name entry)) @
                 replicate (56 - length (take 55 (sj_encode_replace C (name entry)))) 0"
proof -
  let ?enc = "take 55 (sj_encode_replace C (name entry))"
  let ?field = "?enc @ replicate (56 - length ?enc) 0"
  have len: "length ?field = 56" by simp
  have "pack_u32s [offset entry, entry_size entry]
          = Inr (le_bytes 4 (offset entry) @ le_bytes 4 (entry_size entry))"
    using assms by (subst pack_u32s_2) simp
  then have "PacEntry_to_bytes C entry
          = Inr (le_bytes 4 (offset entry) @ le_bytes 4 (entry_size entry) @ ?field)"
    by (simp add: PacEntry_to_bytes_def ENTRY_NAME_SIZE_def Let_def)
  then show ?thesis using len by (intro exI [of _ ?field]) simp
qed

theorem PacEntry_to_bytes_64_witness:
  "PacEntry_to_bytes ascii_codec long_entry
     = Inr ([68, 0, 0, 0] @ [3, 0, 0, 0] @ replicate 55 0x61 @ [0]) \<and>
   length ([68, 0, 0, 0] @ [3, 0, 0, 0] @ replicate 55 (0x61 :: byte) @ [0]) = 64"
proof -
  have enc: "sj_encode_replace ascii_codec (name long_entry) = replicate 60 0x61"
    by (simp add: ascii_codec_def long_entry_def)
  have r: "0 \<le> offset long_entry" "offset long_entry < 2 ^ 32"
    "0 \<le> entry_size long_entry" "entry_size long_entry < 2 ^ 32"
    by (simp_all add: long_entry_def)
  have o: "le_bytes 4 (offset long_entry) = [68, 0, 0, 0]"
    "le_bytes 4 (entry_size long_entry) = [3, 0, 0, 0]"
    by (simp_all add: long_entry_def numeral_eq_Suc)
  show ?thesis
    using PacEntry_to_bytes_64 [OF r, of ascii_codec] by (simp add: enc o)
qed

subsection \<open>The capacity of a name that encodes strictly\<close>

lemma PacEntry_to_bytes_Inr_iff:
  "PacEntry_to_bytes C entry = Inr h \<longleftrightarrow>
     (0 \<le> offset entry \<and> offset entry < 2 ^ 32 \<and>
      0 \<le> entry_size entry \<and> entry_size entry < 2 ^ 32 \<and>
      h = le_bytes 4 (offset entry) @ le_bytes 4 (entry_size entry) @
          take 55 (sj_encode_replace C (name entry)) @
          replicate (56 - length (take 55 (sj_encode_replace C (name entry)))) 0)"
proof -
  have "PacEntry_to_bytes C entry = Inr h \<longleftrightarrow>
     (\<exists>x. pack_u32s [offset entry, entry_size entry] = Inr x \<and>
          h = x @ take 55 (sj_encode_replace C (name entry)) @
              replicate (56 - length (take 55 (sj_encode_replace C (name entry)))) 0)"
    by (auto simp: PacEntry_to_bytes_def ENTRY_NAME_SIZE_def Let_def ebind_Inr_iff
        simp del: pack_u32s.simps)
  then show ?thesis unfolding pack_u32s_2 by auto
qed

text \<open>
  For a name that the codec encodes strictly: with at most 55 bytes it is added to the
  builder, as it is; with 56 bytes or more it is rejected with the \<open>ValueError\<close>
  "Too long entry name", and nothing is added. A header written for an accepted name
  (the encoding with replacement being the strict encoding where that succeeds) carries
  the whole encoded name, followed by zero bytes.
\<close>

lemma add_entry_strict_name:
  assumes "sj_encode C nm = Some e"
  shows "(length e \<le> 55 \<longrightarrow>
            add_entry C entries fd nm
              = Inr (entries @ [\<lparr>offset = 0, entry_size = 0, name = nm, file_data = fd\<rparr>]) \<and>
            (\<forall>entry h. name entry = nm \<and> sj_encode_replace C nm = e \<and>
                 PacEntry_to_bytes C entry = Inr h
               \<longrightarrow> drop 8 h = e @ replicate (56 - length e) 0)) \<and>
         (56 \<le> length e \<longrightarrow> add_entry C entries fd nm = Inl ValueError)"
  using assms
  by (auto simp: add_entry_def ENTRY_NAME_SIZE_def PacEntry_to_bytes_Inr_iff)

lemma add_entry_strict_name_examples:
  "add_entry ascii_codec [] small_file name55
     = Inr [\<lparr>offset = 0, entry_size = 0, name = name55, file_data = small_file\<rparr>] \<and>
   PacEntry_to_bytes ascii_codec
       \<lparr>offset = 0, entry_size = 0, name = name55, file_data = small_file\<rparr>
     = Inr (replicate 8 0 @ replicate 55 0x61 @ [0]) \<and>
   add_entry ascii_codec [] small_file name56 = Inl ValueError"
proof -
  have e55: "sj_encode ascii_codec name55 = Some (replicate 55 0x61)"
    by (simp add: ascii_codec_def name55_def list_all_iff)
  have e56: "sj_encode ascii_codec name56 = Some (replicate 56 0x61)"
    by (simp add: ascii_codec_def name56_def list_all_iff)
  have r55: "sj_encode_replace ascii_codec name55 = replicate 55 0x61"
    by (simp add: ascii_codec_def name55_def)
  have h: "PacEntry_to_bytes ascii_codec
       \<lparr>offset = 0, entry_size = 0, name = name55, file_data = small_file\<rparr>
     = Inr (replicate 8 0 @ replicate 55 0x61 @ [0])"
    by (simp add: PacEntry_to_bytes_Inr_iff r55 numeral_eq_Suc)
  show ?thesis
    using add_entry_strict_name [OF e55, of "[]" small_file]
      add_entry_strict_name [OF e56, of "[]" small_file] h
    by simp
qed

subsection \<open>C3: the layout that pack computes\<close>

lemma first_pass_Inr:
  "first_pass C entries off = Inr (es, hs) \<Longrightarrow>
     length es = length entries \<and> hs = map (entry_header C) es \<and>
     (\<forall>i<length entries.
        PacFile_to_bytes (file_data (entries ! i)) = Inr (packed_payload (entries ! i)) \<and>
        es ! i = (entries ! i)
          \<lparr>offset := off + int (sum_list (map (\<lambda>e. length (packed_payload e)) (take i entries))),
           entry_size := int (length (packed_payload (entries ! i)))\<rparr> \<and>
        PacEntry_to_bytes C (es ! i) = Inr (entry_header C (es ! i)))"
proof (induction entries arbitrary: off es hs)
  case Nil
  then show ?case by simp
next
  case (Cons entry rest)
  from Cons.prems obtain file_bytes header es' hs' where
    fb: "PacFile_to_bytes (file_data entry) = Inr file_bytes"
    and hd: "PacEntry_to_bytes C
               (entry\<lparr>offset := off, entry_size := int (length file_bytes)\<rparr>) = Inr header"
    and rec: "first_pass C rest (off + int (length file_bytes)) = Inr (es', hs')"
    and es: "es = entry\<lparr>offset := off, entry_size := int (length file_bytes)\<rparr> # es'"
    and hs: "hs = header # hs'"
    by (auto simp: ebind_Inr_iff Let_def)
  have pp: "packed_payload entry = file_bytes"
    by (simp add: packed_payload_def fb)
  note IH = Cons.IH [OF rec]
  have len: "length es = length (entry # rest)" using IH es by simp
  have hmap: "hs = map (entry_header C) es"
    using IH es hs hd by (simp add: entry_header_def)
  have each: "PacFile_to_bytes (file_data ((entry # rest) ! i))
                = Inr (packed_payload ((entry # rest) ! i)) \<and>
        es ! i = ((entry # rest) ! i)
          \<lparr>offset := off + int (sum_list (map (\<lambda>e. length (packed_payload e))
                                      (take i (entry # rest)))),
           entry_size := int (length (packed_payload ((entry # rest) ! i)))\<rparr> \<and>
        PacEntry_to_bytes C (es ! i) = Inr (entry_header C (es ! i))"
    if "i < length (entry # rest)" for i
  proof (cases i)
    case 0
    then show ?thesis using fb hd es pp by (simp add: entry_header_def)
  next
    case (Suc j)
    then have j: "j < length rest" using that by simp
    have a: "PacFile_to_bytes (file_data (rest ! j)) = Inr (packed_payload (rest ! j))"
      and b: "es' ! j = (rest ! j)
          \<lparr>offset := off + int (length file_bytes) +
             int (sum_list (map (\<lambda>e. length (packed_payload e)) (take j rest))),
           entry_size := int (length (packed_payload (rest ! j)))\<rparr>"
      and c: "PacEntry_to_bytes C (es' ! j) = Inr (entry_header C (es' ! j))"
      using IH j by blast+
    have n: "es ! i = es' ! j" "(entry # rest) ! i = rest ! j"
      using es Suc by simp_all
    have s: "off + int (sum_list (map (\<lambda>e. length (packed_payload e))
                                      (take i (entry # rest))))
             = off + int (length file_bytes) +
               int (sum_list (map (\<lambda>e. length (packed_payload e)) (take j rest)))"
      using Suc pp by simp
    show ?thesis unfolding n s using a b c by simp
  qed
  show ?case using len hmap each by blast
qed

lemma second_pass_Inr:
  "second_pass es = Inr payloads \<Longrightarrow> payloads = concat (map packed_payload es)"
proof (induction es arbitrary: payloads)
  case Nil
  then show ?case by simp
next
  case (Cons entry rest)
  then show ?case by (auto simp: ebind_Inr_iff packed_payload_def)
qed

lemma packed_payload_update [simp]:
  "packed_payload (entry\<lparr>offset := a, entry_size := b\<rparr>) = packed_payload entry"
  by (simp add: packed_payload_def)

lemma length_entry_header:
  "PacEntry_to_bytes C entry = Inr h \<Longrightarrow> length h = 64"
  by (auto simp: PacEntry_to_bytes_Inr_iff)

text \<open>
  C3. When \<open>pack\<close> has built an archive, every entry \<open>i\<close> has as offset the size of the
  header block, \<open>4 + 64 * n\<close> for \<open>n\<close> entries, plus the sum of the lengths of the
  packed files of the entries before it, and as size the length of its own packed file;
  its name and its file are unchanged. The bytes written are the entry count as four
  little-endian bytes, the headers of the entries in order, each of 64 bytes, and the
  packed files in the same order.
\<close>

theorem pack_layout:
  assumes "pack C entries = Inr (es, out)"
  shows "length es = length entries \<and>
     (\<forall>i<length entries.
        PacFile_to_bytes (file_data (entries ! i)) = Inr (packed_payload (entries ! i)) \<and>
        offset (es ! i) = int (4 + 64 * length entries) +
          int (sum_list (map (\<lambda>e. length (packed_payload e)) (take i entries))) \<and>
        entry_size (es ! i) = int (length (packed_payload (entries ! i))) \<and>
        name (es ! i) = name (entries ! i) \<and>
        file_data (es ! i) = file_data (entries ! i) \<and>
        PacEntry_to_bytes C (es ! i) = Inr (entry_header C (es ! i)) \<and>
        length (entry_header C (es ! i)) = 64) \<and>
     out = le_bytes 4 (int (length entries)) @ concat (map (entry_header C) es) @
           concat (map packed_payload entries)"
proof -
  from assms obtain count hs payloads where
    cnt: "pack_u32 (int (length entries)) = Inr count"
    and fp: "first_pass C entries (int (4 + ENTRY_HEADER_SIZE * length entries)) = Inr (es, hs)"
    and sp: "second_pass es = Inr payloads"
    and out: "out = count @ concat hs @ payloads"
    by (auto simp: pack_def ebind_Inr_iff)
  note F = first_pass_Inr [OF fp]
  have len: "length es = length entries" using F by simp
  have same: "map packed_payload es = map packed_payload entries"
    using F len by (intro nth_equalityI) auto
  have o: "out = le_bytes 4 (int (length entries)) @ concat (map (entry_header C) es) @
           concat (map packed_payload entries)"
    using cnt F second_pass_Inr [OF sp] out same by (simp add: pack_u32_Inr_iff)
  have each: "PacFile_to_bytes (file_data (entries ! i)) = Inr (packed_payload (entries ! i)) \<and>
        offset (es ! i) = int (4 + 64 * length entries) +
          int (sum_list (map (\<lambda>e. length (packed_payload e)) (take i entries))) \<and>
        entry_size (es ! i) = int (length (packed_payload (entries ! i))) \<and>
        name (es ! i) = name (entries ! i) \<and>
        file_data (es ! i) = file_data (entries ! i) \<and>
        PacEntry_to_bytes C (es ! i) = Inr (entry_header C (es ! i)) \<and>
        length (entry_header C (es ! i)) = 64"
    if "i < length entries" for i
  proof -
    have Fi: "PacFile_to_bytes (file_data (entries ! i)) = Inr (packed_payload (entries ! i))"
      "es ! i = (entries ! i)
          \<lparr>offset := int (4 + ENTRY_HEADER_SIZE * length entries) +
                     int (sum_list (map (\<lambda>e. length (packed_payload e)) (take i entries))),
           entry_size := int (length (packed_payload (entries ! i)))\<rparr>"
      "PacEntry_to_bytes C (es ! i) = Inr (entry_header C (es ! i))"
      using F that by blast+
    show ?thesis
      using Fi(1) Fi(3) length_entry_header [OF Fi(3)]
      by (simp add: Fi(2) ENTRY_HEADER_SIZE_def ENTRY_NAME_SIZE_def)
  qed
  show ?thesis using len o each by blast
qed
lemma pack_two_entries: "pack ascii_codec two_entries = Inr (two_packed, two_archive)"
  by code_simp

theorem pack_layout_witness:
  "pack ascii_codec two_entries = Inr (two_packed, two_archive) \<and>
   offset (two_packed ! 1) = 132 + 10 \<and>
   entry_size (two_packed ! 1) = 3 \<and>
   length two_archive = 4 + 64 * 2 + 10 + 3"
proof -
  have p: "packed_payload (two_entries ! 0) = [0x5A, 0x4C, 0x43, 0x33, 5, 0, 0, 0, 7, 8]"
    "packed_payload (two_entries ! Suc 0) = [1, 2, 3]"
    by code_simp+
  have l: "length two_entries = 2" "take (Suc 0) two_entries = [two_entries ! 0]"
    by (simp_all add: two_entries_def)
  have "offset (two_packed ! 1) = int (4 + 64 * length two_entries) +
          int (sum_list (map (\<lambda>e. length (packed_payload e)) (take 1 two_entries))) \<and>
        entry_size (two_packed ! 1) = int (length (packed_payload (two_entries ! 1)))"
    using pack_layout [OF pack_two_entries] l(1) by simp
  then show ?thesis
    using pack_two_entries by (simp add: l p two_archive_def)
qed

subsection \<open>C9: a bitmap survives extraction and packing\<close>

text \<open>
  C9. Let a compressed bitmap hold bytes that inflate to \<open>b\<close>, where \<open>b\<close> has a length
  that fits 32 bits and the compressor is one that \<open>decompress\<close> inverts on \<open>b\<close>. Then
  \<open>converted_data\<close> gives \<open>b\<close>; \<open>convert_back\<close> of \<open>b\<close> with the extension \<open>bmp\<close>
  gives a compressed bitmap; and \<open>to_bytes\<close> of that is the marker \<open>ZLC3\<close>, the length
  of \<open>b\<close> as four little-endian bytes, and the compressed bytes, which decompress to
  \<open>b\<close>. Read again with \<open>from_bytes\<close>, these bytes are the same compressed bitmap.
\<close>

theorem bitmap_round_trip:
  assumes "file_type pf = Bmz"
    and "zlib_decompress Z (data pf) = Some b"
    and "zlib_decompress Z (zlib_compress Z b) = Some b"
    and "length b < 2 ^ 32"
  shows "\<exists>pf' packed.
           PacFile_converted_data C Z J pf = Inr b \<and>
           PacFile_convert_back C Z J b ''bmp'' = Inr pf' \<and>
           PacFile_to_bytes pf' = Inr packed \<and>
           packed = ZLC3 @ le_bytes 4 (int (length b)) @ zlib_compress Z b \<and>
           header_field 1 packed = int (length b) \<and>
           zlib_decompress Z (drop 8 packed) = Some b \<and>
           PacFile_from_bytes C packed (length packed) = Inr pf'"
proof -
  let ?pf' = "\<lparr>file_type = Bmz, data = zlib_compress Z b,
               uncompressed_size = int (length b)\<rparr>"
  let ?packed = "ZLC3 @ le_bytes 4 (int (length b)) @ zlib_compress Z b"
  have r: "(0::int) \<le> int (length b)" "int (length b) < 2 ^ 32"
    using assms(4) by simp_all
  have cd: "PacFile_converted_data C Z J pf = Inr b"
    using assms(1,2) by (simp add: PacFile_converted_data_def)
  have cb: "PacFile_convert_back C Z J b ''bmp'' = Inr ?pf'"
    by (simp add: PacFile_convert_back_def)
  have tb: "PacFile_to_bytes ?pf' = Inr ?packed"
    using r by (simp add: PacFile_to_bytes_def pack_u32_def)
  have hf: "slice 4 (4 + 4) (ZLC3 @ le_bytes 4 (int (length b)) @ zlib_compress Z b)
              = le_bytes 4 (int (length b))"
    by (rule slice_mid) (simp_all add: ZLC3_def)
  then have s48: "slice 4 8 ?packed = le_bytes 4 (int (length b))" by simp
  have li: "le_int (le_bytes 4 (int (length b))) = int (length b)"
    using r by (intro le_int_le_bytes) simp_all
  have h1: "header_field 1 ?packed = int (length b)"
    using s48 li by (simp add: header_field_def)
  have d8: "drop 8 ?packed = zlib_compress Z b"
    by (simp add: ZLC3_def)
  have t4: "take 4 ?packed = ZLC3"
    by (simp add: ZLC3_def)
  have fb: "PacFile_from_bytes C ?packed (length ?packed) = Inr ?pf'"
    unfolding PacFile_from_bytes_def t4 s48
    using li d8 by (simp add: unpack_u32_def slice_def ZLC3_def)
  show ?thesis
    using cd cb tb h1 d8 fb assms(3) by (intro exI [of _ ?pf'] exI [of _ ?packed]) simp
qed

theorem bitmap_round_trip_witness:
  "PacFile_converted_data ascii_codec stored_zlib no_json stored_bitmap = Inr [1, 2, 3] \<and>
   PacFile_convert_back ascii_codec stored_zlib no_json [1, 2, 3] ''bmp'' = Inr stored_bitmap \<and>
   PacFile_to_bytes stored_bitmap = Inr (ZLC3 @ [3, 0, 0, 0] @ [0, 1, 2, 3]) \<and>
   zlib_decompress stored_zlib (drop 8 (ZLC3 @ [3, 0, 0, 0] @ [0, 1, 2, 3])) = Some [1, 2, 3]"
proof -
  have a: "file_type stored_bitmap = Bmz"
    "zlib_decompress stored_zlib (data stored_bitmap) = Some [1, 2, 3]"
    "zlib_decompress stored_zlib (zlib_compress stored_zlib [1, 2, 3]) = Some [1, 2, 3]"
    "length [1 :: byte, 2, 3] < 2 ^ 32"
    by (simp_all add: stored_bitmap_def stored_zlib_def)
  have e: "PacFile_convert_back ascii_codec stored_zlib no_json [1, 2, 3] ''bmp''
             = Inr stored_bitmap"
    by (simp add: PacFile_convert_back_def stored_bitmap_def stored_zlib_def)
  have l: "le_bytes 4 (int (length [1 :: byte, 2, 3])) = [3, 0, 0, 0]"
    by (simp add: numeral_eq_Suc)
  have z: "zlib_compress stored_zlib [1, 2, 3] = [0, 1, 2, 3]"
    by (simp add: stored_zlib_def)
  show ?thesis
    using bitmap_round_trip [OF a, of ascii_codec no_json] e unfolding l z by auto
qed

subsection \<open>C7: reading an entry header from a short file\<close>

lemma PacFile_from_bytes_error:
  "PacFile_from_bytes C dat sz = Inl e \<Longrightarrow> e = StructError"
  by (auto simp: PacFile_from_bytes_def ebind_def unpack_u32_def
      split: if_splits sum.splits)

text \<open>
  \<open>PacEntry.from_file\<close> raises \<open>EOFError\<close> exactly when fewer than 8 bytes are left:
  the length of the name field that it reads next is never tested.
\<close>

lemma PacEntry_from_file_EOFError:
  "PacEntry_from_file C f = Inl EOFError \<longleftrightarrow> length (content f) - position f < 8"
proof (cases "length (content f) - position f < 8")
  case True
  then show ?thesis
    by (simp add: PacEntry_from_file_def f_read_def slice_def Let_def)
next
  case False
  then have l: "length (fst (f_read 8 f)) = 8"
    by (simp add: f_read_def slice_def Let_def)
  have "PacEntry_from_file C f \<noteq> Inl EOFError"
    using l PacFile_from_bytes_error [of C]
    by (auto simp: PacEntry_from_file_def Let_def unpack_u32s_def ebind_def
        split: prod.splits sum.splits)
  then show ?thesis using False by simp
qed

text \<open>
  C7 fails on the code. With the 12-byte archive, 8 bytes are left when the entry
  header is read: \<open>from_file\<close> returns an entry with an empty name, and the archive
  is read without error, where the claim has the header decode fail.
\<close>

theorem short_header_accepted:
  "length short_archive - 4 < 64 \<and>
   PacEntry_from_file ascii_codec \<lparr>content = short_archive, position = 4\<rparr>
     = Inr (nameless_entry, \<lparr>content = short_archive, position = 12\<rparr>) \<and>
   PacArchive_from_file ascii_codec short_archive = Inr [nameless_entry]"
  by code_simp

subsection \<open>Packing and unpacking of integers\<close>



lemma u32s_append:
  assumes "length b = 4"
  shows "u32s (b @ xs) = le_int b # u32s xs"
proof -
  obtain w0 w1 w2 w3 where "b = [w0, w1, w2, w3]"
    using assms by (auto simp: length_Suc_conv eval_nat_numeral)
  then show ?thesis by simp
qed



subsection \<open>C4: decoding what encode wrote\<close>









subsection \<open>The decoder and the layout of the format\<close>

lemma ascii_length_preserving: "length_preserving ascii_codec"
proof -
  have "list_all (\<lambda>c. c < 128) (map unat bs)" if "list_all (\<lambda>b. b < 0x80) bs"
    for bs :: bytes
    using that by (induction bs) (auto simp: word_less_nat_alt)
  then show ?thesis
    by (auto simp: length_preserving_def ascii_codec_def split: if_splits)
qed

lemma ascii_replacement_unencodable: "replacement_unencodable ascii_codec"
proof -
  have "\<not> list_all (\<lambda>c. c < 128) (map (\<lambda>b. if b < 0x80 then unat b else 0xFFFD) bs)"
    if "\<not> list_all (\<lambda>b. b < 0x80) bs" for bs :: bytes
    using that by (induction bs) auto
  then show ?thesis
    by (auto simp: replacement_unencodable_def ascii_codec_def split: if_splits)
qed

text \<open>
  Reading a name and advancing past it, under the two properties of the codec: the
  steps \<open>ResName.from_bytes\<close> and \<open>4 + len(value.encode("shift_jis"))\<close> taken together.
\<close>

lemma name_step:
  assumes "length_preserving C" "replacement_unencodable C"
  shows "ebind (ResName_from_bytes C d) (\<lambda>v. ebind (consumed C v) (K v)) =
     (if length d < 4 then Inl StructError
      else (case sj_decode C (name_bytes d) of
              None \<Rightarrow> Inl UnicodeEncodeError
            | Some v \<Rightarrow> K v (4 + length (name_bytes d))))"
proof (cases "length d < 4")
  case True
  then show ?thesis by (simp add: ResName_from_bytes_def unpack_u32_def)
next
  case False
  let ?t = "name_bytes d"
  have r: "ResName_from_bytes C d =
        (case sj_decode C ?t of Some v \<Rightarrow> Inr v | None \<Rightarrow> Inr (sj_decode_replace C ?t))"
    using False
    by (simp add: ResName_from_bytes_def unpack_u32_def Let_def name_bytes_def
        declared_length_def split: option.splits)
  show ?thesis
  proof (cases "sj_decode C ?t")
    case None
    then have "sj_encode C (sj_decode_replace C ?t) = None"
      using assms(2) by (simp add: replacement_unencodable_def)
    then show ?thesis using False None by (simp add: r consumed_def)
  next
    case (Some v)
    then obtain e where "sj_encode C v = Some e" "length e = length ?t"
      using assms(1) unfolding length_preserving_def by blast
    then show ?thesis using False Some by (simp add: r consumed_def)
  qed
qed
lemma name_step_Inr:
  assumes "length_preserving C" "replacement_unencodable C"
  shows "ebind (ResName_from_bytes C d) (\<lambda>v. ebind (consumed C v) (K v)) = Inr r \<longleftrightarrow>
     4 \<le> length d \<and>
     (\<exists>v. sj_decode C (name_bytes d) = Some v \<and> K v (4 + length (name_bytes d)) = Inr r)"
  unfolding name_step [OF assms] by (auto split: option.splits)

lemma name_step_Inl:
  assumes "length_preserving C" "replacement_unencodable C"
    and "ebind (ResName_from_bytes C d) (\<lambda>v. ebind (consumed C v) (K v)) = Inl e"
  shows "e = StructError \<or> e = UnicodeEncodeError \<or> (\<exists>v n. K v n = Inl e)"
  using assms(3) unfolding name_step [OF assms(1,2)]
  by (auto split: option.splits if_splits)

lemma consumed_decoded:
  assumes "length_preserving C" "sj_decode C t = Some v"
  shows "consumed C v = Inr (4 + length t)"
proof -
  obtain e where "sj_encode C v = Some e" "length e = length t"
    using assms unfolding length_preserving_def by blast
  then show ?thesis by (simp add: consumed_def)
qed

lemma length_name_bytes:
  "length (name_bytes d) = min (declared_length d) (length d - 4)"
  by (simp add: name_bytes_def slice_def)

lemma text_field_Some_iff:
  "text_field d = Some (t, n) \<longleftrightarrow>
     4 + declared_length d \<le> length d \<and> t = name_bytes d \<and> n = 4 + declared_length d"
  by (auto simp: text_field_def)

lemma text_field_fits:
  assumes "4 \<le> length d" "4 + length (name_bytes d) < length d"
  shows "text_field d = Some (name_bytes d, 4 + length (name_bytes d))"
  using assms by (auto simp: text_field_Some_iff length_name_bytes min_def split: if_splits)

lemma text_field_length:
  "text_field d = Some (t, n) \<Longrightarrow> n = 4 + length t \<and> n \<le> length d \<and> 4 \<le> length d"
  by (auto simp: text_field_Some_iff length_name_bytes)

lemma unpack_u32s_Inr_iff:
  "unpack_u32s n b = Inr vs \<longleftrightarrow> length b = 4 * n \<and> vs = u32s b"
  by (auto simp: unpack_u32s_def)

lemma length_slice: "length (slice a b xs) = min (b - a) (length xs - a)"
  by (simp add: slice_def)

lemma TtpFrame_from_bytes_Inr:
  assumes C: "length_preserving C" "replacement_unencodable C"
    and ok: "TtpFrame_from_bytes C d = Inr f"
  shows "\<exists>t1 t2 t3 k. frame_fields d = Some ([t1, t2, t3], k) \<and> k \<le> length d \<and>
           sj_decode C t1 = Some (sprite_name f) \<and>
           sj_decode C t2 = Some (se_name f) \<and>
           sj_decode C t3 = Some (textbox_name f) \<and>
           frame_consumed C f = Inr k"
proof -
  let ?n1 = "4 + length (name_bytes d)"
  let ?d2 = "drop ?n1 d"
  let ?n2 = "4 + length (name_bytes ?d2)"
  let ?d3 = "drop (?n1 + ?n2) d"
  let ?n3 = "4 + length (name_bytes ?d3)"
  let ?pos = "?n1 + ?n2 + ?n3"
  from ok obtain v1 v2 v3 vs where
    l1: "4 \<le> length d" and v1: "sj_decode C (name_bytes d) = Some v1"
    and l2: "4 \<le> length ?d2" and v2: "sj_decode C (name_bytes ?d2) = Some v2"
    and l3: "4 \<le> length ?d3" and v3: "sj_decode C (name_bytes ?d3) = Some v3"
    and un: "unpack_u32s 5 (slice ?pos (?pos + 20) d) = Inr vs"
    and f: "sprite_name f = v1" "se_name f = v2" "textbox_name f = v3"
    unfolding TtpFrame_from_bytes_def name_step_Inr [OF C] Let_def
    by (auto simp: ebind_Inr_iff)
  have p: "?pos + 20 \<le> length d"
    using un by (simp add: unpack_u32s_Inr_iff length_slice min_def split: if_splits)
  have t1: "text_field d = Some (name_bytes d, ?n1)"
    using l1 l2 by (intro text_field_fits) simp_all
  have t2: "text_field ?d2 = Some (name_bytes ?d2, ?n2)"
    using l2 l3 by (intro text_field_fits) (simp_all add: add.commute)
  have d3: "?d3 = drop ?n2 ?d2" by (simp add: add.commute)
  have t3: "text_field ?d3 = Some (name_bytes ?d3, ?n3)"
    using l3 p by (intro text_field_fits) simp_all
  have ff: "frame_fields d
              = Some ([name_bytes d, name_bytes ?d2, name_bytes ?d3], ?pos + 20)"
    unfolding frame_fields_def t1 option.case prod.case t2 t3 using p by simp
  have fc: "frame_consumed C f = Inr (?pos + 20)"
    unfolding frame_consumed_def f
      consumed_decoded [OF C(1) v1] consumed_decoded [OF C(1) v2]
      consumed_decoded [OF C(1) v3]
    by simp
  show ?thesis using ff p v1 v2 v3 fc f by blast
qed
lemma frame_fields_Some:
  assumes "frame_fields d = Some (ts, k)"
  shows "\<exists>t1 n1 t2 n2 t3 n3.
           text_field d = Some (t1, n1) \<and> text_field (drop n1 d) = Some (t2, n2) \<and>
           text_field (drop (n1 + n2) d) = Some (t3, n3) \<and>
           ts = [t1, t2, t3] \<and> k = n1 + n2 + n3 + 20 \<and> k \<le> length d"
  using assms
  by (auto simp: frame_fields_def split: option.splits prod.splits if_splits)

lemma name_step_field:
  assumes C: "length_preserving C" "replacement_unencodable C"
    and t: "text_field d = Some (t, n)" and v: "sj_decode C t = Some v"
  shows "ebind (ResName_from_bytes C d) (\<lambda>v. ebind (consumed C v) (K v)) = K v n"
proof -
  have "4 \<le> length d" "t = name_bytes d" "n = 4 + length (name_bytes d)"
    using t text_field_length [OF t] by (auto simp: text_field_Some_iff)
  then show ?thesis
    unfolding name_step [OF C] using v by simp
qed

lemma TtpFrame_from_bytes_fields:
  assumes C: "length_preserving C" "replacement_unencodable C"
    and ff: "frame_fields d = Some (ts, k)"
    and dec: "list_all (decodable C) ts"
  shows "\<exists>f. TtpFrame_from_bytes C d = Inr f \<and> frame_consumed C f = Inr k"
proof -
  obtain t1 n1 t2 n2 t3 n3 where
    t1: "text_field d = Some (t1, n1)" and t2: "text_field (drop n1 d) = Some (t2, n2)"
    and t3: "text_field (drop (n1 + n2) d) = Some (t3, n3)"
    and ts: "ts = [t1, t2, t3]" and k: "k = n1 + n2 + n3 + 20" "k \<le> length d"
    using frame_fields_Some [OF ff] by blast
  obtain v1 v2 v3 where v: "sj_decode C t1 = Some v1" "sj_decode C t2 = Some v2"
    "sj_decode C t3 = Some v3"
    using dec ts by (auto simp: decodable_def)
  have n: "n1 = 4 + length t1" "n2 = 4 + length t2" "n3 = 4 + length t3"
    using text_field_length [OF t1] text_field_length [OF t2] text_field_length [OF t3]
    by simp_all
  let ?pos = "n1 + n2 + n3"
  have "length (slice ?pos (?pos + 20) d) = 4 * 5"
    using k by (simp add: length_slice)
  then have un: "unpack_u32s 5 (slice ?pos (?pos + 20) d)
                   = Inr (u32s (slice ?pos (?pos + 20) d))"
    by (simp add: unpack_u32s_def)
  let ?vs = "u32s (slice ?pos (?pos + 20) d)"
  let ?f = "\<lparr>sprite_name = v1, se_name = v2, textbox_name = v3,
            delay_ms = ?vs ! 0, x_offset_textbox = ?vs ! 1,
            y_offset_textbox = ?vs ! 2, x_offset = ?vs ! 3, y_offset = ?vs ! 4\<rparr>"
  have "TtpFrame_from_bytes C d = Inr ?f"
    unfolding TtpFrame_from_bytes_def
      name_step_field [OF C t1 v(1)] name_step_field [OF C t2 v(2)]
      name_step_field [OF C t3 v(3)] Let_def un
    by simp
  moreover have "frame_consumed C ?f = Inr k"
    unfolding frame_consumed_def using k(1) n
    by (simp add: consumed_decoded [OF C(1) v(1)] consumed_decoded [OF C(1) v(2)]
        consumed_decoded [OF C(1) v(3)])
  ultimately show ?thesis by blast
qed

lemma ebind_Inl_iff:
  "ebind m f = Inl e \<longleftrightarrow> m = Inl e \<or> (\<exists>x. m = Inr x \<and> f x = Inl e)"
  by (cases m) (simp_all add: ebind_def)

lemma ResName_from_bytes_Inl: "ResName_from_bytes C d = Inl e \<Longrightarrow> e = StructError"
  by (auto simp: ResName_from_bytes_def ebind_Inl_iff unpack_u32_def Let_def
      split: if_splits option.splits)

lemma consumed_Inl: "consumed C v = Inl e \<Longrightarrow> e = UnicodeEncodeError"
  by (auto simp: consumed_def split: option.splits)

lemma unpack_u32s_Inl: "unpack_u32s n b = Inl e \<Longrightarrow> e = StructError"
  by (auto simp: unpack_u32s_def split: if_splits)

lemma TtpFrame_from_bytes_Inl:
  "TtpFrame_from_bytes C d = Inl e \<Longrightarrow> e = StructError \<or> e = UnicodeEncodeError"
  unfolding TtpFrame_from_bytes_def ebind_Inl_iff Let_def
  by (auto dest: ResName_from_bytes_Inl consumed_Inl unpack_u32s_Inl)

lemma frame_consumed_Inl: "frame_consumed C f = Inl e \<Longrightarrow> e = UnicodeEncodeError"
  unfolding frame_consumed_def ebind_Inl_iff by (auto dest: consumed_Inl)

lemma read_frames_Inl:
  "read_frames C buf n pos acc = Inl e \<Longrightarrow> e = StructError \<or> e = UnicodeEncodeError"
proof (induction n arbitrary: pos acc)
  case 0
  then show ?case by simp
next
  case (Suc n)
  then show ?case
    by (auto simp: ebind_Inl_iff dest: TtpFrame_from_bytes_Inl frame_consumed_Inl)
qed

lemma frames_fields_length:
  "frames_fields n d = Some (ts, k) \<Longrightarrow> k \<le> length d"
proof (induction n arbitrary: d ts k)
  case 0
  then show ?case by simp
next
  case (Suc n)
  then obtain ts1 k1 ts2 k2 where f: "frame_fields d = Some (ts1, k1)"
    and r: "frames_fields n (drop k1 d) = Some (ts2, k2)" and k: "k = k1 + k2"
    by (auto split: option.splits prod.splits)
  have "k1 \<le> length d" using frame_fields_Some [OF f] by blast
  moreover have "k2 \<le> length (drop k1 d)" using Suc.IH [OF r] .
  ultimately show ?case using k by simp
qed

lemma read_frames_Inr:
  assumes C: "length_preserving C" "replacement_unencodable C"
  shows "read_frames C buf n pos acc = Inr (fs, pos') \<Longrightarrow>
     \<exists>ts k. frames_fields n (drop pos buf) = Some (ts, k) \<and> pos' = pos + k \<and>
            list_all (decodable C) ts \<and> length fs = length acc + n"
proof (induction n arbitrary: pos acc)
  case 0
  then show ?case by simp
next
  case (Suc n)
  from Suc.prems obtain f k1 where
    f: "TtpFrame_from_bytes C (drop pos buf) = Inr f"
    and c: "frame_consumed C f = Inr k1"
    and r: "read_frames C buf n (pos + k1) (acc @ [f]) = Inr (fs, pos')"
    by (auto simp: ebind_Inr_iff)
  obtain t1 t2 t3 k where ff: "frame_fields (drop pos buf) = Some ([t1, t2, t3], k)"
    and d: "sj_decode C t1 = Some (sprite_name f)" "sj_decode C t2 = Some (se_name f)"
    "sj_decode C t3 = Some (textbox_name f)"
    and c': "frame_consumed C f = Inr k"
    using TtpFrame_from_bytes_Inr [OF C f] by blast
  have k: "k1 = k" using c c' by simp
  obtain ts2 k2 where r2: "frames_fields n (drop (pos + k1) buf) = Some (ts2, k2)"
    "pos' = pos + k1 + k2" "list_all (decodable C) ts2"
    "length fs = length (acc @ [f]) + n"
    using Suc.IH [OF r] by blast
  have dd: "drop k (drop pos buf) = drop (pos + k1) buf"
    by (simp add: k add.commute)
  have r2': "frames_fields n (drop k (drop pos buf)) = Some (ts2, k2)"
    using r2(1) dd by simp
  have S: "frames_fields (Suc n) (drop pos buf) = Some ([t1, t2, t3] @ ts2, k + k2)"
    by (simp add: ff r2' del: drop_drop)
  have dt: "list_all (decodable C) ([t1, t2, t3] @ ts2)"
    using d r2(3) by (simp add: decodable_def)
  have "pos' = pos + (k + k2)" "length fs = length acc + Suc n"
    using r2(2,4) k by simp_all
  then show ?case using S dt by blast
qed

lemma read_frames_fields:
  assumes C: "length_preserving C" "replacement_unencodable C"
  shows "frames_fields n (drop pos buf) = Some (ts, k) \<Longrightarrow> list_all (decodable C) ts \<Longrightarrow>
     \<exists>fs. read_frames C buf n pos acc = Inr (fs, pos + k)"
proof (induction n arbitrary: pos acc ts k)
  case 0
  then show ?case by simp
next
  case (Suc n)
  from Suc.prems(1) obtain ts1 k1 ts2 k2 where
    f: "frame_fields (drop pos buf) = Some (ts1, k1)"
    and r: "frames_fields n (drop k1 (drop pos buf)) = Some (ts2, k2)"
    and e: "ts = ts1 @ ts2" "k = k1 + k2"
    by (auto split: option.splits prod.splits)
  have d1: "list_all (decodable C) ts1" and d2: "list_all (decodable C) ts2"
    using Suc.prems(2) e by simp_all
  obtain fr where fr: "TtpFrame_from_bytes C (drop pos buf) = Inr fr"
    "frame_consumed C fr = Inr k1"
    using TtpFrame_from_bytes_fields [OF C f d1] by blast
  have r': "frames_fields n (drop (pos + k1) buf) = Some (ts2, k2)"
    using r by (simp add: add.commute)
  obtain fs where "read_frames C buf n (pos + k1) (acc @ [fr]) = Inr (fs, pos + k1 + k2)"
    using Suc.IH [OF r' d2] by blast
  then show ?case using fr e by (simp add: add.assoc)
qed
lemma u32s_unfold: "4 \<le> length d \<Longrightarrow> u32s d = le_int (take 4 d) # u32s (drop 4 d)"
  using u32s_append [of "take 4 d" "drop 4 d"] by simp

lemma header_count:
  assumes "16 \<le> length buf"
  shows "u32s (slice 0 16 buf) ! 1 = header_field 1 buf"
proof -
  have "u32s (take 16 buf) ! 1 = le_int (take 4 (drop 4 (take 16 buf)))"
    using assms by (simp add: u32s_unfold [of "take 16 buf"] u32s_unfold [of "drop 4 (take 16 buf)"])
  moreover have "take 4 (drop 4 (take 16 buf)) = take 4 (drop 4 buf)"
    by (simp add: drop_take)
  ultimately show ?thesis by (simp add: slice_def header_field_def)
qed

lemma TtpFile_from_bytes_Inr_iff:
  "TtpFile_from_bytes C buf = Inr ttp \<longleftrightarrow>
     16 \<le> length buf \<and>
     (\<exists>fs pos. read_frames C buf (nat (header_field 1 buf)) 16 [] = Inr (fs, pos) \<and>
        ttp = \<lparr>maybe_ttp_type = u32s (slice 0 16 buf) ! 0,
               frame_count = header_field 1 buf,
               window_width = u32s (slice 0 16 buf) ! 2,
               window_height = u32s (slice 0 16 buf) ! 3,
               frames = fs,
               onetime_wakeup_dont_play_sound =
                 (if u32s (slice 0 16 buf) ! 0 = 3 \<and> pos < length buf
                  then Some (uint (buf ! pos)) else None)\<rparr>)"
proof (cases "16 \<le> length buf")
  case True
  then have "unpack_u32s 4 (slice 0 16 buf) = Inr (u32s (slice 0 16 buf))"
    by (simp add: unpack_u32s_def slice_def)
  then show ?thesis
    unfolding TtpFile_from_bytes_def using True header_count [OF True]
    by (auto simp: ebind_Inr_iff)
next
  case False
  then have "unpack_u32s 4 (slice 0 16 buf) = Inl StructError"
    by (simp add: unpack_u32s_def slice_def)
  then show ?thesis
    unfolding TtpFile_from_bytes_def using False by simp
qed

lemma TtpFile_from_bytes_Inr:
  assumes C: "length_preserving C" "replacement_unencodable C"
    and ok: "TtpFile_from_bytes C buf = Inr ttp"
  shows "\<exists>ts k. document_fields buf = Some (ts, k) \<and> k \<le> length buf \<and>
           list_all (decodable C) ts \<and>
           frame_count ttp = header_field 1 buf \<and>
           length (frames ttp) = nat (header_field 1 buf)"
proof -
  from ok obtain fs pos where l: "16 \<le> length buf"
    and r: "read_frames C buf (nat (header_field 1 buf)) 16 [] = Inr (fs, pos)"
    and t: "frame_count ttp = header_field 1 buf" "frames ttp = fs"
    unfolding TtpFile_from_bytes_Inr_iff by auto
  obtain ts k where f: "frames_fields (nat (header_field 1 buf)) (drop 16 buf) = Some (ts, k)"
    "list_all (decodable C) ts" "length fs = nat (header_field 1 buf)"
    using read_frames_Inr [OF C r] by auto
  have "k \<le> length (drop 16 buf)" using frames_fields_length [OF f(1)] .
  then have "16 + k \<le> length buf" using l by simp
  moreover have "document_fields buf = Some (ts, 16 + k)"
    using l f(1) by (simp add: document_fields_def)
  ultimately show ?thesis using f t by blast
qed

lemma TtpFile_from_bytes_fields:
  assumes C: "length_preserving C" "replacement_unencodable C"
    and df: "document_fields buf = Some (ts, k)"
    and dec: "list_all (decodable C) ts"
  shows "\<exists>ttp. TtpFile_from_bytes C buf = Inr ttp"
proof -
  from df obtain k' where l: "16 \<le> length buf"
    and f: "frames_fields (nat (header_field 1 buf)) (drop 16 buf) = Some (ts, k')"
    by (auto simp: document_fields_def split: if_splits option.splits)
  obtain fs where "read_frames C buf (nat (header_field 1 buf)) 16 [] = Inr (fs, 16 + k')"
    using read_frames_fields [OF C f dec] by blast
  then show ?thesis
    unfolding TtpFile_from_bytes_Inr_iff using l by blast
qed

lemma TtpFile_from_bytes_Inl:
  "TtpFile_from_bytes C buf = Inl e \<Longrightarrow> e = StructError \<or> e = UnicodeEncodeError"
  unfolding TtpFile_from_bytes_def ebind_Inl_iff
  by (auto dest: unpack_u32s_Inl read_frames_Inl)

text \<open>
  A document or a frame whose bytes end before what it declares is not decoded: the
  decoder raises \<open>struct.error\<close> or, from the strict encoding of a name,
  \<open>UnicodeEncodeError\<close>.
\<close>

lemma truncated_document_fails:
  assumes "length_preserving C" "replacement_unencodable C"
    and "document_fields buf = None"
  shows "TtpFile_from_bytes C buf = Inl StructError \<or>
         TtpFile_from_bytes C buf = Inl UnicodeEncodeError"
proof (cases "TtpFile_from_bytes C buf")
  case (Inl e)
  then show ?thesis using TtpFile_from_bytes_Inl [OF Inl] by auto
next
  case (Inr ttp)
  then show ?thesis using TtpFile_from_bytes_Inr [OF assms(1,2) Inr] assms(3) by auto
qed

lemma truncated_frame_fails:
  assumes "length_preserving C" "replacement_unencodable C"
    and "frame_fields d = None"
  shows "TtpFrame_from_bytes C d = Inl StructError \<or>
         TtpFrame_from_bytes C d = Inl UnicodeEncodeError"
proof (cases "TtpFrame_from_bytes C d")
  case (Inl e)
  then show ?thesis using TtpFrame_from_bytes_Inl [OF Inl] by auto
next
  case (Inr f)
  then show ?thesis using TtpFrame_from_bytes_Inr [OF assms(1,2) Inr] assms(3) by auto
qed

subsection \<open>C2: the classification of a payload\<close>

text \<open>
  C2, as amended, for a codec with the two properties above. Where the payload starts
  with \<open>ZLC3\<close>, \<open>PacFile.from_bytes\<close> never returns an animation or an opaque file:
  with the 8 bytes of the marker and the size there, it returns a compressed bitmap
  whose \<open>uncompressed_size\<close> is the little-endian value of bytes 4 to 8 and whose data
  are the bytes from 8 on (\<open>size - 8\<close> bytes when the payload has \<open>size\<close> bytes); with
  fewer, unpacking the size raises \<open>struct.error\<close> and nothing is returned. Where the
  payload does not start with \<open>ZLC3\<close>, the result holds the payload unchanged and is
  an animation or an opaque file; it is an animation if and only if
  \<open>TtpFile.from_bytes\<close> returns without an exception. An animation is a payload in
  which the declared structure fits: the header, then as many frames as it declares,
  each of three length-prefixed names and 20 bytes, take no more bytes than there are.
  And a payload in which that structure fits, with names that decode strictly, is an
  animation.
\<close>

theorem PacFile_from_bytes_classes:
  assumes "length_preserving C" "replacement_unencodable C"
  shows
  "(take 4 dat = ZLC3 \<longrightarrow>
      (8 \<le> length dat \<longrightarrow>
         PacFile_from_bytes C dat sz
           = Inr \<lparr>file_type = Bmz, data = slice 8 sz dat,
                  uncompressed_size = le_int (slice 4 8 dat)\<rparr>) \<and>
      (length dat < 8 \<longrightarrow> PacFile_from_bytes C dat sz = Inl StructError) \<and>
      (length dat = sz \<longrightarrow> slice 8 sz dat = drop 8 dat \<and> length (slice 8 sz dat) = sz - 8) \<and>
      (\<forall>pf. PacFile_from_bytes C dat sz = Inr pf \<longrightarrow> file_type pf = Bmz)) \<and>
   (take 4 dat \<noteq> ZLC3 \<longrightarrow>
      (\<exists>pf. PacFile_from_bytes C dat sz = Inr pf \<and> data pf = take sz dat \<and>
            (file_type pf = Ttp \<or> file_type pf = Other) \<and>
            (file_type pf = Ttp \<longleftrightarrow> (\<exists>ttp. TtpFile_from_bytes C (take sz dat) = Inr ttp)) \<and>
            (file_type pf = Ttp \<longrightarrow>
               (\<exists>ts k. document_fields (take sz dat) = Some (ts, k) \<and>
                       k \<le> length (take sz dat))) \<and>
            ((\<exists>ts k. document_fields (take sz dat) = Some (ts, k) \<and>
                     list_all (decodable C) ts) \<longrightarrow> file_type pf = Ttp)) \<and>
      (length dat = sz \<longrightarrow> take sz dat = dat))"
proof -
  have bmz: "PacFile_from_bytes C dat sz
           = Inr \<lparr>file_type = Bmz, data = slice 8 sz dat,
                  uncompressed_size = le_int (slice 4 8 dat)\<rparr>"
    if "take 4 dat = ZLC3" "8 \<le> length dat"
    using that by (simp add: PacFile_from_bytes_def unpack_u32_def slice_def)
  have short: "PacFile_from_bytes C dat sz = Inl StructError"
    if "take 4 dat = ZLC3" "length dat < 8"
    using that by (simp add: PacFile_from_bytes_def unpack_u32_def slice_def)
  have only: "file_type pf = Bmz"
    if "take 4 dat = ZLC3" "PacFile_from_bytes C dat sz = Inr pf" for pf
    using that by (auto simp: PacFile_from_bytes_def ebind_Inr_iff)
  have rest: "slice 8 sz dat = drop 8 dat \<and> length (slice 8 sz dat) = sz - 8"
    if "length dat = sz"
    using that by (simp add: slice_def)
  have fits: "\<exists>ts k. document_fields (take sz dat) = Some (ts, k) \<and> k \<le> length (take sz dat)"
    if "TtpFile_from_bytes C (take sz dat) = Inr ttp" for ttp
    using TtpFile_from_bytes_Inr [OF assms that] by blast
  have conv: "\<exists>ttp. TtpFile_from_bytes C (take sz dat) = Inr ttp"
    if "document_fields (take sz dat) = Some (ts, k)" "list_all (decodable C) ts" for ts k
    using TtpFile_from_bytes_fields [OF assms that] .
  have other: "\<exists>pf. PacFile_from_bytes C dat sz = Inr pf \<and> data pf = take sz dat \<and>
            (file_type pf = Ttp \<or> file_type pf = Other) \<and>
            (file_type pf = Ttp \<longleftrightarrow> (\<exists>ttp. TtpFile_from_bytes C (take sz dat) = Inr ttp)) \<and>
            (file_type pf = Ttp \<longrightarrow>
               (\<exists>ts k. document_fields (take sz dat) = Some (ts, k) \<and>
                       k \<le> length (take sz dat))) \<and>
            ((\<exists>ts k. document_fields (take sz dat) = Some (ts, k) \<and>
                     list_all (decodable C) ts) \<longrightarrow> file_type pf = Ttp)"
    if nz: "take 4 dat \<noteq> ZLC3"
  proof (cases "TtpFile_from_bytes C (take sz dat)")
    case (Inl e)
    have no: "\<not> (\<exists>ts k. document_fields (take sz dat) = Some (ts, k) \<and>
                     list_all (decodable C) ts)"
      using conv Inl by auto
    have "PacFile_from_bytes C dat sz
            = Inr \<lparr>file_type = Other, data = take sz dat, uncompressed_size = 0\<rparr>"
      using nz Inl by (simp add: PacFile_from_bytes_def)
    then show ?thesis using Inl no by simp
  next
    case (Inr ttp)
    have "PacFile_from_bytes C dat sz
            = Inr \<lparr>file_type = Ttp, data = take sz dat, uncompressed_size = 0\<rparr>"
      using nz Inr by (simp add: PacFile_from_bytes_def)
    then show ?thesis using Inr fits [OF Inr] by simp
  qed
  show ?thesis
    using bmz short only rest other by simp
qed

lemma sample_fields:
  "document_fields sample_bytes
     = Some ([[0x61, 0x62], [], [0x63], [0x64], [0x65], []], 85)"
  by code_simp

lemma lacking_fields: "document_fields lacking_bytes = None"
  by code_simp

theorem PacFile_from_bytes_classes_witness:
  "PacFile_from_bytes ascii_codec bitmap_bytes 12
     = Inr \<lparr>file_type = Bmz, data = [0, 1, 2, 3], uncompressed_size = 3\<rparr> \<and>
   (\<exists>pf. PacFile_from_bytes ascii_codec sample_bytes 86 = Inr pf \<and>
         file_type pf = Ttp \<and> data pf = sample_bytes) \<and>
   (\<exists>pf. PacFile_from_bytes ascii_codec lacking_bytes 16 = Inr pf \<and>
         file_type pf = Other \<and> data pf = lacking_bytes)"
proof -
  note T = PacFile_from_bytes_classes
             [OF ascii_length_preserving ascii_replacement_unencodable]
  have b: "take 4 bitmap_bytes = ZLC3" "8 \<le> length bitmap_bytes"
    "slice 8 12 bitmap_bytes = [0, 1, 2, 3]" "le_int (slice 4 8 bitmap_bytes) = 3"
    by (simp_all add: bitmap_bytes_def ZLC3_def slice_def)
  have 1: "PacFile_from_bytes ascii_codec bitmap_bytes 12
     = Inr \<lparr>file_type = Bmz, data = [0, 1, 2, 3], uncompressed_size = 3\<rparr>"
    using T [of bitmap_bytes 12] b by simp
  have s: "take 4 sample_bytes \<noteq> ZLC3" "take 86 sample_bytes = sample_bytes"
    by code_simp+
  have sd: "list_all (decodable ascii_codec) [[0x61, 0x62], [], [0x63], [0x64], [0x65], []]"
    by (simp add: decodable_def ascii_codec_def)
  have 2: "\<exists>pf. PacFile_from_bytes ascii_codec sample_bytes 86 = Inr pf \<and>
         file_type pf = Ttp \<and> data pf = sample_bytes"
    using T [of sample_bytes 86] s sample_fields sd by auto
  have l: "take 4 lacking_bytes \<noteq> ZLC3" "take 16 lacking_bytes = lacking_bytes"
    by code_simp+
  have 3: "\<exists>pf. PacFile_from_bytes ascii_codec lacking_bytes 16 = Inr pf \<and>
         file_type pf = Other \<and> data pf = lacking_bytes"
    using T [of lacking_bytes 16] l lacking_fields by auto
  show ?thesis using 1 2 3 by simp
qed

text \<open>
  C2 as stated fails: the payload of the four bytes \<open>ZLC3\<close> is not classified as a
  compressed bitmap, since unpacking its size raises \<open>struct.error\<close>.
\<close>

theorem short_bitmap_counterexample:
  "take 4 ZLC3 = ZLC3 \<and> PacFile_from_bytes ascii_codec ZLC3 4 = Inl StructError"
  by code_simp
subsection \<open>C5: a name that does not decode strictly\<close>

text \<open>
  C5 fails on the code. Where the bytes of the first name of a frame do not decode
  strictly, \<open>ResName.from_bytes\<close> returns the text decoded with replacement, as the
  claim says; but \<open>TtpFrame.from_bytes\<close> then measures what the name consumed by
  encoding that text strictly, which raises \<open>UnicodeEncodeError\<close> as the text decoded
  with replacement does not encode. The frame is not decoded and nothing is consumed,
  where the claim has \<open>4 + L\<close> bytes consumed for the name.
\<close>

theorem invalid_name_fails_frame:
  assumes "4 \<le> length d"
    and "sj_decode C (name_bytes d) = None"
    and "sj_encode C (sj_decode_replace C (name_bytes d)) = None"
  shows "ResName_from_bytes C d = Inr (sj_decode_replace C (name_bytes d)) \<and>
         consumed C (sj_decode_replace C (name_bytes d)) = Inl UnicodeEncodeError \<and>
         TtpFrame_from_bytes C d = Inl UnicodeEncodeError"
proof -
  have r: "ResName_from_bytes C d = Inr (sj_decode_replace C (name_bytes d))"
    using assms(1,2)
    by (simp add: ResName_from_bytes_def unpack_u32_def Let_def name_bytes_def
        declared_length_def split: option.splits)
  have c: "consumed C (sj_decode_replace C (name_bytes d)) = Inl UnicodeEncodeError"
    using assms(3) by (simp add: consumed_def)
  have "TtpFrame_from_bytes C d = Inl UnicodeEncodeError"
    by (simp add: TtpFrame_from_bytes_def r c)
  then show ?thesis using r c by simp
qed

theorem invalid_name_fails_frame_witness:
  "frame_fields bad_frame_bytes = Some ([[0xFF], [], []], 33) \<and>
   length bad_frame_bytes = 33 \<and>
   ResName_from_bytes ascii_codec bad_frame_bytes = Inr [0xFFFD] \<and>
   TtpFrame_from_bytes ascii_codec bad_frame_bytes = Inl UnicodeEncodeError"
proof -
  have n: "name_bytes bad_frame_bytes = [0xFF]"
    by code_simp
  have a: "4 \<le> length bad_frame_bytes"
    "sj_decode ascii_codec (name_bytes bad_frame_bytes) = None"
    "sj_encode ascii_codec (sj_decode_replace ascii_codec (name_bytes bad_frame_bytes)) = None"
    unfolding n by (simp_all add: bad_frame_bytes_def ascii_codec_def)
  have r: "sj_decode_replace ascii_codec [0xFF] = [0xFFFD]"
    by (simp add: ascii_codec_def)
  have f: "frame_fields bad_frame_bytes = Some ([[0xFF], [], []], 33)"
    "length bad_frame_bytes = 33"
    by code_simp+
  show ?thesis
    using invalid_name_fails_frame [OF a] f unfolding n r by simp
qed

subsection \<open>C6: bytes that end inside a name\<close>

lemma header_field_append:
  "length h = 16 \<Longrightarrow> header_field 1 (h @ d) = header_field 1 h"
  by (simp add: header_field_def slice_def)

text \<open>
  C6 fails on the code. Let a frame end inside its first name, the bytes that are there
  not decoding strictly (they end inside a two-byte character, say). The frame is
  truncated, and so is every document that declares a frame and continues with these
  bytes; but the exception is the \<open>UnicodeEncodeError\<close> of the strict encoding by which
  the decoder measures the name, not the \<open>struct.error\<close> by which it signals bytes
  that are missing.
\<close>

theorem cut_name_raises_encode_error:
  assumes "4 \<le> length d" and "length d < 4 + declared_length d"
    and "sj_decode C (name_bytes d) = None"
    and "sj_encode C (sj_decode_replace C (name_bytes d)) = None"
  shows "frame_fields d = None \<and>
         TtpFrame_from_bytes C d = Inl UnicodeEncodeError \<and>
         (\<forall>h. length h = 16 \<and> 0 < header_field 1 h \<longrightarrow>
              document_fields (h @ d) = None \<and>
              TtpFile_from_bytes C (h @ d) = Inl UnicodeEncodeError)"
proof -
  have ff: "frame_fields d = None"
    using assms(2) by (simp add: frame_fields_def text_field_def)
  have r: "ResName_from_bytes C d = Inr (sj_decode_replace C (name_bytes d))"
    using assms(1,3)
    by (simp add: ResName_from_bytes_def unpack_u32_def Let_def name_bytes_def
        declared_length_def split: option.splits)
  have c: "consumed C (sj_decode_replace C (name_bytes d)) = Inl UnicodeEncodeError"
    using assms(4) by (simp add: consumed_def)
  have fr: "TtpFrame_from_bytes C d = Inl UnicodeEncodeError"
    by (simp add: TtpFrame_from_bytes_def r c)
  have doc: "document_fields (h @ d) = None \<and>
             TtpFile_from_bytes C (h @ d) = Inl UnicodeEncodeError"
    if h: "length h = 16" "0 < header_field 1 h" for h
  proof -
    have "header_field 1 (h @ d) = header_field 1 h"
      using header_field_append [OF h(1)] .
    then have "0 < nat (header_field 1 (h @ d))"
      using h(2) by simp
    then obtain n where n: "nat (header_field 1 (h @ d)) = Suc n"
      using gr0_implies_Suc by blast
    have "frames_fields (Suc n) (drop 16 (h @ d)) = None"
      using h(1) ff by simp
    then have df: "document_fields (h @ d) = None"
      using h(1) n by (simp add: document_fields_def del: frames_fields.simps)
    have l: "16 \<le> length (h @ d)" using h(1) by simp
    have un: "unpack_u32s 4 (slice 0 16 (h @ d)) = Inr (u32s (slice 0 16 (h @ d)))"
      using h(1) by (simp add: unpack_u32s_def slice_def)
    have "read_frames C (h @ d) (Suc n) 16 [] = Inl UnicodeEncodeError"
      using h(1) fr by simp
    then have "TtpFile_from_bytes C (h @ d) = Inl UnicodeEncodeError"
      unfolding TtpFile_from_bytes_def un ebind_Inr header_count [OF l] n
      by (simp del: read_frames.simps)
    then show ?thesis using df by simp
  qed
  show ?thesis using ff fr doc by blast
qed

theorem cut_name_raises_encode_error_witness:
  "frame_fields cut_frame_bytes = None \<and>
   TtpFrame_from_bytes ascii_codec cut_frame_bytes = Inl UnicodeEncodeError \<and>
   document_fields (lacking_bytes @ cut_frame_bytes) = None \<and>
   TtpFile_from_bytes ascii_codec (lacking_bytes @ cut_frame_bytes) = Inl UnicodeEncodeError"
proof -
  have n: "name_bytes cut_frame_bytes = [0x81]" "declared_length cut_frame_bytes = 2"
    by code_simp+
  have a: "4 \<le> length cut_frame_bytes"
    "length cut_frame_bytes < 4 + declared_length cut_frame_bytes"
    "sj_decode ascii_codec (name_bytes cut_frame_bytes) = None"
    "sj_encode ascii_codec (sj_decode_replace ascii_codec (name_bytes cut_frame_bytes)) = None"
    unfolding n by (simp_all add: cut_frame_bytes_def ascii_codec_def)
  have h: "length lacking_bytes = 16" "0 < header_field 1 lacking_bytes"
    by code_simp+
  show ?thesis
    using cut_name_raises_encode_error [OF a] h by blast
qed

subsection \<open>C8: a name that does not encode strictly\<close>

text \<open>
  C8 fails on the code. \<open>PacEntry.to_bytes\<close> encodes the name with replacement, so
  every name has an encoded form; \<open>add_entry\<close> measures the name by encoding it
  strictly. A name that does not encode strictly is therefore refused with
  \<open>UnicodeEncodeError\<close>, whatever the length of its encoded form: neither accepted
  when that has at most 55 bytes, nor refused with the \<open>ValueError\<close> of a name too long
  when it has more.
\<close>

theorem unencodable_name_refused:
  assumes "sj_encode C nm = None"
  shows "add_entry C entries fd nm = Inl UnicodeEncodeError \<and>
         PacEntry_to_bytes C \<lparr>offset = 0, entry_size = 0, name = nm, file_data = fd\<rparr>
           = Inr (le_bytes 4 0 @ le_bytes 4 0 @ take 55 (sj_encode_replace C nm) @
                  replicate (56 - length (take 55 (sj_encode_replace C nm))) 0)"
  using assms by (simp add: add_entry_def PacEntry_to_bytes_Inr_iff)

theorem unencodable_name_refused_witness:
  "sj_encode_replace ascii_codec accent_name = [0x3F] \<and>
   add_entry ascii_codec [] small_file accent_name = Inl UnicodeEncodeError \<and>
   length (sj_encode_replace ascii_codec long_accent_name) = 60 \<and>
   add_entry ascii_codec [] small_file long_accent_name = Inl UnicodeEncodeError"
proof -
  have a: "sj_encode ascii_codec accent_name = None"
    "sj_encode ascii_codec long_accent_name = None"
    by (simp_all add: ascii_codec_def accent_name_def long_accent_name_def list_all_iff)
  have r: "sj_encode_replace ascii_codec accent_name = [0x3F]"
    "length (sj_encode_replace ascii_codec long_accent_name) = 60"
    by (simp_all add: ascii_codec_def accent_name_def long_accent_name_def)
  show ?thesis
    using unencodable_name_refused [OF a(1), of "[]" small_file]
      unencodable_name_refused [OF a(2), of "[]" small_file] r
    by simp
qed

end
